theory Spec2Isabelle
  imports Main
begin

section \<open>SmartGallery: the request handlers of the photo-sharing backend\<close>

text \<open>
  The server is a set of Express route handlers over two MongoDB collections (users and
  photos, comments being embedded in their photo). Each handler is modelled as a function
  from the store before the request to the response and the store after it. What the
  handler obtains from outside the program is an explicit input: the libraries
  (bcrypt, jsonwebtoken, the driver's cast of a string to an ObjectId) are parameters
  collected in \<open>env\<close>, together with the signing secret, and the clock, the
  ObjectId generated for a new document and the media host's answer are the \<open>world\<close>
  of one request.

  Identifiers are ObjectIds, written as the strings that \<open>toString()\<close> and the token
  payload carry. A path parameter is any string: the driver casts it to an ObjectId
  before a lookup by id, and a string that is no ObjectId makes the lookup throw, which
  the handler's \<open>catch\<close> answers with status 500. The id in a verified token is the
  \<open>_id\<close> that the login signed.

  A request body is the JSON object's string fields; a field that is absent, or is not
  a string, is \<open>None\<close>. bcrypt rejects a password that is not a string, which again
  ends in the handler's \<open>catch\<close>. For the description and the comment text an absent
  field is read as the empty string, which is what \<open>req.body.description || ""\<close>
  does. Requests are handled one after the other.
\<close>

subsection \<open>Documents and the store\<close>

type_synonym oid = string

record user =
  u_id :: oid
  username :: string
  email :: string
  password :: string

record comment =
  c_id :: oid
  c_text :: string
  c_user :: oid
  c_createdAt :: nat

text \<open>
  The Photo schema lives in \<open>models/Photo.js\<close>; its fields are those the handlers
  read and write: \<open>url\<close>, \<open>description\<close>, \<open>user\<close>, the array \<open>likes\<close> of user
  ids (\<open>includes\<close>, \<open>push\<close>, \<open>pull\<close>), the array \<open>comments\<close> of subdocuments
  (\<open>push\<close>, \<open>id\<close>) and \<open>createdAt\<close> (the sort key of the listing).
\<close>

record photo =
  p_id :: oid
  url :: string
  description :: string
  p_user :: oid
  likes :: "oid list"
  comments :: "comment list"
  p_createdAt :: nat

record store =
  users :: "user list"
  photos :: "photo list"

datatype error =
    DuplicateEmail
  | DuplicateId
  | ValidationError
  | CastError
  | BcryptError
  | UploadError string
  | TypeError

subsection \<open>Responses\<close>

datatype author = AuthorId oid | AuthorDoc oid string | AuthorNull

datatype owner = OwnerDoc oid string string | OwnerNull

record jcomment =
  j_id :: oid
  j_text :: string
  j_user :: author
  j_createdAt :: nat

record jphoto =
  jp_id :: oid
  jp_url :: string
  jp_description :: string
  jp_user :: owner
  jp_likes :: "oid list"
  jp_comments :: "jcomment list"
  jp_createdAt :: nat

datatype body =
    Message bool string
  | Failure error
  | LoginOk string oid string
  | PhotoDoc photo
  | Likes nat
  | Comments "jcomment list"
  | Photos "jphoto list"
  | NoRoute

type_synonym response = "nat \<times> body"

subsection \<open>Requests, the libraries and the outside world\<close>

datatype verb = GET | POST | PUT | DELETE

record request =
  r_verb :: verb
  path :: "string list"
  authorization :: "string option"
  body :: "string \<rightharpoonup> string"
  r_file :: "string option"
  params :: "string \<Rightarrow> string"

record decoded =
  d_id :: oid
  iat :: nat
  exp :: nat

record env =
  JWT_SECRET :: string
  bcrypt_hash :: "string \<Rightarrow> nat \<Rightarrow> string"
  bcrypt_compare :: "string \<Rightarrow> string \<Rightarrow> bool"
  jwt_sign :: "oid \<Rightarrow> string \<Rightarrow> string \<Rightarrow> nat \<Rightarrow> string"
  jwt_verify :: "string \<Rightarrow> string \<Rightarrow> nat \<Rightarrow> decoded option"
  castObjectId :: "string \<Rightarrow> bool"

record world =
  clock :: nat
  fresh_id :: oid
  uploader_upload :: "string \<Rightarrow> string \<Rightarrow> error + string"

type_synonym handler = "env \<Rightarrow> world \<Rightarrow> request \<Rightarrow> store \<Rightarrow> response \<times> store"

text \<open>\<open>req.body.k || ""\<close>: the field, or the empty string when it is absent.\<close>

definition field :: "request \<Rightarrow> string \<Rightarrow> string" where
  "field req k = (case body req k of None \<Rightarrow> [] | Some v \<Rightarrow> v)"

subsection \<open>The time span of \<open>expiresIn\<close>\<close>

text \<open>
  jsonwebtoken reads a string \<open>expiresIn\<close> as a time span: digits followed by a unit.
  The short units are modelled; the result is in seconds, the unit of \<open>iat\<close> and
  \<open>exp\<close>.
\<close>

fun digits_val :: "nat \<Rightarrow> string \<Rightarrow> nat option" where
  "digits_val acc [] = Some acc"
| "digits_val acc (c # cs) =
     (if 48 \<le> (of_char c :: nat) \<and> (of_char c :: nat) \<le> 57
      then digits_val (10 * acc + (of_char c - 48)) cs else None)"

definition unit_seconds :: "char \<Rightarrow> nat option" where
  "unit_seconds c =
     (if c = CHR ''s'' then Some 1
      else if c = CHR ''m'' then Some 60
      else if c = CHR ''h'' then Some 3600
      else if c = CHR ''d'' then Some 86400
      else None)"

definition timespan :: "string \<Rightarrow> nat option" where
  "timespan s =
     (if length s < 2 then None
      else case unit_seconds (last s) of
             None \<Rightarrow> None
           | Some k \<Rightarrow> (case digits_val 0 (butlast s) of
                          None \<Rightarrow> None
                        | Some n \<Rightarrow> Some (n * k)))"

subsection \<open>Collection operations\<close>

fun User_findOne :: "string \<Rightarrow> user list \<Rightarrow> user option" where
  "User_findOne e [] = None"
| "User_findOne e (u # us) = (if email u = e then Some u else User_findOne e us)"

fun User_findById :: "oid \<Rightarrow> user list \<Rightarrow> user option" where
  "User_findById i [] = None"
| "User_findById i (u # us) = (if u_id u = i then Some u else User_findById i us)"

text \<open>
  Modelled from the spec: the User schema (\<open>models/User.js\<close>) is not among the sources.
  The spec lists a validation error for missing fields, gives the user's email as unique
  and lets registration fail with DuplicateEmail if the email exists. Saving the new
  user (its \<open>_id\<close>, the username and the email as the body gave them, the password
  hash) is therefore rejected when the username or the email is missing, and otherwise is
  an insert that the store rejects when a user with the same email, or the same
  \<open>_id\<close>, is present.
\<close>

definition User_save ::
  "oid \<Rightarrow> string option \<Rightarrow> string option \<Rightarrow> string \<Rightarrow> store \<Rightarrow> error + store" where
  "User_save i name mail hashed st =
     (case (name, mail) of
        (Some n, Some m) \<Rightarrow>
          if User_findOne m (users st) \<noteq> None then Inl DuplicateEmail
          else if User_findById i (users st) \<noteq> None then Inl DuplicateId
          else Inr (st\<lparr>users := users st @
                      [\<lparr>u_id = i, username = n, email = m, password = hashed\<rparr>]\<rparr>)
      | _ \<Rightarrow> Inl ValidationError)"

text \<open>The document of the collection with the given \<open>_id\<close>, if there is one.\<close>

fun find_doc :: "oid \<Rightarrow> photo list \<Rightarrow> photo option" where
  "find_doc i [] = None"
| "find_doc i (p # ps) = (if p_id p = i then Some p else find_doc i ps)"

text \<open>
  \<open>Photo.findById\<close> casts its argument to an ObjectId first. Which strings the
  driver casts is the driver's matter and a parameter here (\<open>castObjectId\<close>); when
  the cast fails the query rejects with a CastError.
\<close>

definition Photo_findById :: "env \<Rightarrow> string \<Rightarrow> photo list \<Rightarrow> error + photo option" where
  "Photo_findById e i ps = (if castObjectId e i then Inr (find_doc i ps) else Inl CastError)"

definition Photo_insert :: "photo \<Rightarrow> store \<Rightarrow> error + store" where
  "Photo_insert p st =
     (if find_doc (p_id p) (photos st) \<noteq> None then Inl DuplicateId
      else Inr (st\<lparr>photos := photos st @ [p]\<rparr>))"

fun replace_doc :: "photo \<Rightarrow> photo list \<Rightarrow> photo list" where
  "replace_doc d [] = []"
| "replace_doc d (p # ps) = (if p_id p = p_id d then d # ps else p # replace_doc d ps)"

definition Photo_save :: "photo \<Rightarrow> store \<Rightarrow> store" where
  "Photo_save p st = st\<lparr>photos := replace_doc p (photos st)\<rparr>"

fun delete_doc :: "oid \<Rightarrow> photo list \<Rightarrow> photo list" where
  "delete_doc i [] = []"
| "delete_doc i (p # ps) = (if p_id p = i then ps else p # delete_doc i ps)"

definition Photo_deleteOne :: "photo \<Rightarrow> store \<Rightarrow> store" where
  "Photo_deleteOne p st = st\<lparr>photos := delete_doc (p_id p) (photos st)\<rparr>"

text \<open>\<open>MongooseArray.pull\<close> removes every element equal to its argument.\<close>

definition pull :: "'a \<Rightarrow> 'a list \<Rightarrow> 'a list" where
  "pull x xs = filter (\<lambda>y. y \<noteq> x) xs"

text \<open>
  \<open>comments.id(commentId)\<close> gives the first subdocument with that id, and null when
  there is none, also for a string that is no ObjectId.
\<close>

fun comments_id :: "oid \<Rightarrow> comment list \<Rightarrow> comment option" where
  "comments_id i [] = None"
| "comments_id i (c # cs) = (if c_id c = i then Some c else comments_id i cs)"

definition comment_deleteOne :: "comment \<Rightarrow> comment list \<Rightarrow> comment list" where
  "comment_deleteOne c cs = filter (\<lambda>x. c_id x \<noteq> c_id c) cs"

subsection \<open>Population\<close>

definition raw_comment :: "comment \<Rightarrow> jcomment" where
  "raw_comment c =
     \<lparr>j_id = c_id c, j_text = c_text c, j_user = AuthorId (c_user c),
      j_createdAt = c_createdAt c\<rparr>"

definition populate_comment :: "user list \<Rightarrow> comment \<Rightarrow> jcomment" where
  "populate_comment us c =
     \<lparr>j_id = c_id c, j_text = c_text c,
      j_user = (case User_findById (c_user c) us of
                  None \<Rightarrow> AuthorNull
                | Some u \<Rightarrow> AuthorDoc (u_id u) (username u)),
      j_createdAt = c_createdAt c\<rparr>"

definition populate_photo :: "user list \<Rightarrow> photo \<Rightarrow> jphoto" where
  "populate_photo us p =
     \<lparr>jp_id = p_id p, jp_url = url p, jp_description = description p,
      jp_user = (case User_findById (p_user p) us of
                   None \<Rightarrow> OwnerNull
                 | Some u \<Rightarrow> OwnerDoc (u_id u) (username u) (email u)),
      jp_likes = likes p,
      jp_comments = map (populate_comment us) (comments p),
      jp_createdAt = p_createdAt p\<rparr>"

subsection \<open>JWT middleware\<close>

definition authMiddleware ::
  "env \<Rightarrow> world \<Rightarrow> request \<Rightarrow> (decoded \<Rightarrow> store \<Rightarrow> response \<times> store) \<Rightarrow> store
     \<Rightarrow> response \<times> store" where
  "authMiddleware e w req next st =
     (case authorization req of
        None \<Rightarrow> ((401, Message False ''No token''), st)
      | Some token \<Rightarrow>
          if token = [] then ((401, Message False ''No token''), st)
          else (case jwt_verify e token (JWT_SECRET e) (clock w) of
                  None \<Rightarrow> ((403, Message False ''Invalid token''), st)
                | Some user \<Rightarrow> next user st))"

subsection \<open>Auth routes\<close>

definition signup :: handler where
  "signup e w req st =
     (case body req ''password'' of
        None \<Rightarrow> ((500, Failure BcryptError), st)
      | Some pw \<Rightarrow>
          (let hashed = bcrypt_hash e pw 10
           in case User_save (fresh_id w) (body req ''username'') (body req ''email'') hashed st of
                Inl err \<Rightarrow> ((500, Failure err), st)
              | Inr st' \<Rightarrow> ((200, Message True ''User registered''), st')))"

text \<open>
  \<open>User.findOne({ email })\<close> with no email in the body finds nobody, every stored
  user having an email.
\<close>

definition login :: handler where
  "login e w req st =
     (case (case body req ''email'' of
              None \<Rightarrow> None
            | Some mail \<Rightarrow> User_findOne mail (users st)) of
        None \<Rightarrow> ((400, Message False ''User not found''), st)
      | Some user \<Rightarrow>
          (case body req ''password'' of
             None \<Rightarrow> ((500, Failure BcryptError), st)
           | Some pw \<Rightarrow>
               if \<not> bcrypt_compare e pw (password user)
               then ((400, Message False ''Invalid credentials''), st)
               else ((200, LoginOk (jwt_sign e (u_id user) (JWT_SECRET e) ''2h'' (clock w))
                                   (u_id user) (username user)), st)))"

subsection \<open>Photo routes\<close>

definition upload :: "decoded \<Rightarrow> handler" where
  "upload user e w req st =
     (case r_file req of
        None \<Rightarrow> ((500, Failure TypeError), st)
      | Some file_path \<Rightarrow>
          (case uploader_upload w file_path ''gallery'' of
             Inl err \<Rightarrow> ((500, Failure err), st)
           | Inr secure_url \<Rightarrow>
               (let newPhoto = \<lparr>p_id = fresh_id w, url = secure_url,
                                description = field req ''description'',
                                p_user = d_id user, likes = [], comments = [],
                                p_createdAt = clock w\<rparr>
                in case Photo_insert newPhoto st of
                     Inl err \<Rightarrow> ((500, Failure err), st)
                   | Inr st' \<Rightarrow> ((200, PhotoDoc newPhoto), st'))))"

text \<open>
  The listing is sorted by \<open>createdAt\<close>, newest first; photos of equal time keep the
  reverse of their insertion order here, where the store leaves their order open.
\<close>

definition get_photos :: "decoded \<Rightarrow> handler" where
  "get_photos user e w req st =
     ((200, Photos (map (populate_photo (users st))
                        (rev (sort_key p_createdAt (photos st))))), st)"

definition post_comment_first :: "decoded \<Rightarrow> handler" where
  "post_comment_first user e w req st =
     (case Photo_findById e (params req ''id'') (photos st) of
        Inl err \<Rightarrow> ((500, Failure err), st)
      | Inr None \<Rightarrow> ((404, Message False ''Photo not found''), st)
      | Inr (Some photo) \<Rightarrow>
          (let comment = \<lparr>c_id = fresh_id w, c_text = field req ''text'',
                          c_user = d_id user, c_createdAt = clock w\<rparr>;
               st' = Photo_save (photo\<lparr>comments := comments photo @ [comment]\<rparr>) st
           in case Photo_findById e (params req ''id'') (photos st') of
                Inl err \<Rightarrow> ((500, Failure err), st')
              | Inr None \<Rightarrow> ((500, Failure TypeError), st')
              | Inr (Some updatedPhoto) \<Rightarrow>
                  ((200, Comments (map (populate_comment (users st'))
                                       (comments updatedPhoto))), st')))"

definition put_description :: "decoded \<Rightarrow> handler" where
  "put_description user e w req st =
     (case Photo_findById e (params req ''id'') (photos st) of
        Inl err \<Rightarrow> ((500, Failure err), st)
      | Inr None \<Rightarrow> ((404, Message False ''Photo not found''), st)
      | Inr (Some photo) \<Rightarrow>
          if p_user photo \<noteq> d_id user then ((403, Message False ''Not allowed''), st)
          else (let photo' = photo\<lparr>description := field req ''description''\<rparr>
                in ((200, PhotoDoc photo'), Photo_save photo' st)))"

definition post_like :: "decoded \<Rightarrow> handler" where
  "post_like user e w req st =
     (case Photo_findById e (params req ''id'') (photos st) of
        Inl err \<Rightarrow> ((500, Failure err), st)
      | Inr None \<Rightarrow> ((404, Message False ''Photo not found''), st)
      | Inr (Some photo) \<Rightarrow>
          (let alreadyLiked = d_id user \<in> set (likes photo);
               photo' = (if alreadyLiked
                         then photo\<lparr>likes := pull (d_id user) (likes photo)\<rparr>
                         else photo\<lparr>likes := likes photo @ [d_id user]\<rparr>)
           in ((200, Likes (length (likes photo'))), Photo_save photo' st)))"

subsection \<open>Comment routes\<close>

definition post_comment_second :: "decoded \<Rightarrow> handler" where
  "post_comment_second user e w req st =
     (case Photo_findById e (params req ''id'') (photos st) of
        Inl err \<Rightarrow> ((500, Failure err), st)
      | Inr None \<Rightarrow> ((404, Message False ''Photo not found''), st)
      | Inr (Some photo) \<Rightarrow>
          (let comment = \<lparr>c_id = fresh_id w, c_text = field req ''text'',
                          c_user = d_id user, c_createdAt = clock w\<rparr>;
               photo' = photo\<lparr>comments := comments photo @ [comment]\<rparr>
           in ((200, Comments (map raw_comment (comments photo'))), Photo_save photo' st)))"

definition delete_comment :: "decoded \<Rightarrow> handler" where
  "delete_comment user e w req st =
     (case Photo_findById e (params req ''photoId'') (photos st) of
        Inl err \<Rightarrow> ((500, Failure err), st)
      | Inr None \<Rightarrow> ((404, Message False ''Photo not found''), st)
      | Inr (Some photo) \<Rightarrow>
          (case comments_id (params req ''commentId'') (comments photo) of
             None \<Rightarrow> ((404, Message False ''Comment not found''), st)
           | Some comment \<Rightarrow>
               if c_user comment \<noteq> d_id user
               then ((403, Message False ''Not allowed''), st)
               else ((200, Message True ''Comment deleted''),
                     Photo_save (photo\<lparr>comments := comment_deleteOne comment (comments photo)\<rparr>)
                       st)))"

definition delete_photo :: "decoded \<Rightarrow> handler" where
  "delete_photo user e w req st =
     (case Photo_findById e (params req ''id'') (photos st) of
        Inl err \<Rightarrow> ((500, Failure err), st)
      | Inr None \<Rightarrow> ((404, Message False ''Photo not found''), st)
      | Inr (Some photo) \<Rightarrow>
          if p_user photo \<noteq> d_id user then ((403, Message False ''Not allowed''), st)
          else ((200, Message True ''Photo deleted''), Photo_deleteOne photo st))"

subsection \<open>The router\<close>

text \<open>
  Express tries the registered routes in the order of registration and runs the first
  whose method and path match; none of the handlers calls \<open>next\<close> once it has
  answered, so a later registration of the same method and path is never reached.
  A request is its method, its path split at the slashes, the \<open>authorization\<close>
  header, the JSON body and the file that multer leaves in \<open>req.file\<close>; the
  middleware in front of the routes (CORS, body parsing, static files) is not modelled.
\<close>

datatype seg = Lit string | Param string

fun match_path :: "seg list \<Rightarrow> string list \<Rightarrow> (string \<Rightarrow> string) \<Rightarrow> (string \<Rightarrow> string) option" where
  "match_path [] [] ps = Some ps"
| "match_path (Lit l # segs) (x # xs) ps = (if l = x then match_path segs xs ps else None)"
| "match_path (Param n # segs) (x # xs) ps = match_path segs xs (ps(n := x))"
| "match_path _ _ ps = None"

definition protected :: "(decoded \<Rightarrow> handler) \<Rightarrow> handler" where
  "protected h e w req st = authMiddleware e w req (\<lambda>user. h user e w req) st"

definition routes :: "(verb \<times> seg list \<times> handler) list" where
  "routes =
     [(POST, [Lit ''signup''], signup),
      (POST, [Lit ''login''], login),
      (POST, [Lit ''upload''], protected upload),
      (GET, [Lit ''photos''], protected get_photos),
      (POST, [Lit ''photos'', Param ''id'', Lit ''comment''], protected post_comment_first),
      (PUT, [Lit ''photos'', Param ''id'', Lit ''description''], protected put_description),
      (POST, [Lit ''photos'', Param ''id'', Lit ''like''], protected post_like),
      (POST, [Lit ''photos'', Param ''id'', Lit ''comment''], protected post_comment_second),
      (DELETE, [Lit ''photos'', Param ''photoId'', Lit ''comment'', Param ''commentId''],
         protected delete_comment),
      (DELETE, [Lit ''photos'', Param ''id''], protected delete_photo)]"

fun dispatch :: "(verb \<times> seg list \<times> handler) list \<Rightarrow> handler" where
  "dispatch [] e w req st = ((404, NoRoute), st)"
| "dispatch ((v, pat, h) # rs) e w req st =
     (if v = r_verb req
      then (case match_path pat (path req) (\<lambda>_. []) of
              Some ps \<Rightarrow> h e w (req\<lparr>params := ps\<rparr>) st
            | None \<Rightarrow> dispatch rs e w req st)
      else dispatch rs e w req st)"

definition app :: handler where
  "app = dispatch routes"

fun run :: "env \<Rightarrow> (world \<times> request) list \<Rightarrow> store \<Rightarrow> store" where
  "run e [] st = st"
| "run e ((w, req) # rs) st = run e rs (snd (app e w req st))"

subsection \<open>Properties of stores and requests\<close>

definition empty_store :: store where
  "empty_store = \<lparr>users = [], photos = []\<rparr>"

text \<open>The store keeps \<open>_id\<close> unique within a collection.\<close>

definition ids_distinct :: "store \<Rightarrow> bool" where
  "ids_distinct st \<longleftrightarrow> distinct (map p_id (photos st))"

definition likes_distinct :: "store \<Rightarrow> bool" where
  "likes_distinct st \<longleftrightarrow> list_all (\<lambda>p. distinct (likes p)) (photos st)"

text \<open>A request is authenticated as \<open>user\<close> when its header verifies to that payload.\<close>

definition authenticated :: "env \<Rightarrow> world \<Rightarrow> request \<Rightarrow> decoded \<Rightarrow> bool" where
  "authenticated e w req user \<longleftrightarrow>
     (case authorization req of
        None \<Rightarrow> False
      | Some token \<Rightarrow> token \<noteq> [] \<and> jwt_verify e token (JWT_SECRET e) (clock w) = Some user)"

text \<open>
  What the handlers rely on from jsonwebtoken: a token signed with a time span is not
  empty and verifies under the same secret, until its expiry, to the signed id with
  \<open>iat\<close> the time of signing and \<open>exp\<close> that time plus the span; and a string
  with a space in it is not a compact token and never verifies.
\<close>

definition jwt_contract :: "env \<Rightarrow> bool" where
  "jwt_contract e \<longleftrightarrow>
     (\<forall>uid s x d n t. timespan x = Some d \<longrightarrow>
        jwt_sign e uid s x n \<noteq> [] \<and>
        jwt_verify e (jwt_sign e uid s x n) s t =
          (if t < n + d then Some \<lparr>d_id = uid, iat = n, exp = n + d\<rparr> else None)) \<and>
     (\<forall>tok s t. CHR '' '' \<in> set tok \<longrightarrow> jwt_verify e tok s t = None)"

subsection \<open>A reference instance of the libraries\<close>

text \<open>
  A small instance of the library parameters, used to show that the contract above can
  be met and to run the handlers on sample requests. Its tokens have four segments
  separated by dots: the two times in unary, the escaped id and the escaped secret.
\<close>

definition enc_char :: "char \<Rightarrow> string" where
  "enc_char c =
     (if c = CHR '' '' then ''_s''
      else if c = CHR ''.'' then ''_d''
      else if c = CHR ''_'' then ''__''
      else [c])"

definition esc :: "string \<Rightarrow> string" where
  "esc s = concat (map enc_char s)"

definition dec_char :: "char \<Rightarrow> char" where
  "dec_char b = (if b = CHR ''s'' then CHR '' '' else if b = CHR ''d'' then CHR ''.'' else CHR ''_'')"

fun unesc :: "string \<Rightarrow> string" where
  "unesc [] = []"
| "unesc [a] = [a]"
| "unesc (a # b # r) = (if a = CHR ''_'' then dec_char b # unesc r else a # unesc (b # r))"

fun split_dot :: "string \<Rightarrow> string list" where
  "split_dot [] = [[]]"
| "split_dot (c # cs) =
     (if c = CHR ''.'' then [] # split_dot cs
      else (case split_dot cs of [] \<Rightarrow> [[c]] | s # ss \<Rightarrow> (c # s) # ss))"

definition unary :: "nat \<Rightarrow> string" where
  "unary n = replicate n CHR ''i''"

definition ref_sign :: "oid \<Rightarrow> string \<Rightarrow> string \<Rightarrow> nat \<Rightarrow> string" where
  "ref_sign uid s x n =
     (case timespan x of
        None \<Rightarrow> ''.''
      | Some d \<Rightarrow> unary n @ ''.'' @ unary (n + d) @ ''.'' @ esc uid @ ''.'' @ esc s)"

definition ref_verify :: "string \<Rightarrow> string \<Rightarrow> nat \<Rightarrow> decoded option" where
  "ref_verify tok s t =
     (case split_dot tok of
        [a, b, c, d] \<Rightarrow>
          if a = unary (length a) \<and> b = unary (length b) \<and> c = esc (unesc c) \<and> d = esc s
             \<and> t < length b
          then Some \<lparr>d_id = unesc c, iat = length a, exp = length b\<rparr>
          else None
      | _ \<Rightarrow> None)"

text \<open>The strings cast to an ObjectId are, in this instance, those of 24 hex digits.\<close>

definition hex_digit :: "char \<Rightarrow> bool" where
  "hex_digit c \<longleftrightarrow>
     (48 \<le> (of_char c :: nat) \<and> (of_char c :: nat) \<le> 57)
     \<or> (97 \<le> (of_char c :: nat) \<and> (of_char c :: nat) \<le> 102)
     \<or> (65 \<le> (of_char c :: nat) \<and> (of_char c :: nat) \<le> 70)"

definition hex24 :: "string \<Rightarrow> bool" where
  "hex24 s \<longleftrightarrow> length s = 24 \<and> list_all hex_digit s"

definition ref_env :: env where
  "ref_env =
     \<lparr>JWT_SECRET = ''k'',
      bcrypt_hash = (\<lambda>p cost. CHR ''$'' # p),
      bcrypt_compare = (\<lambda>p h. h = CHR ''$'' # p),
      jwt_sign = ref_sign,
      jwt_verify = ref_verify,
      castObjectId = hex24\<rparr>"

subsection \<open>Sample data\<close>

text \<open>Ids of the sample documents, strings of 24 hex digits as ObjectIds are written.\<close>

abbreviation alice_id :: oid where "alice_id \<equiv> ''0000000000000000000000a1''"

abbreviation bob_id :: oid where "bob_id \<equiv> ''0000000000000000000000b2''"

abbreviation sunset_id :: oid where "sunset_id \<equiv> ''0000000000000000000000f1''"

abbreviation hello_id :: oid where "hello_id \<equiv> ''0000000000000000000000c1''"

abbreviation new_id :: oid where "new_id \<equiv> ''0000000000000000000000e9''"

abbreviation other_id :: oid where "other_id \<equiv> ''0000000000000000000000dd''"

definition alice :: user where
  "alice = \<lparr>u_id = alice_id, username = ''a'', email = ''a@x.com'', password = ''$pw''\<rparr>"

definition bob :: user where
  "bob = \<lparr>u_id = bob_id, username = ''b'', email = ''b@x.com'', password = ''$qw''\<rparr>"

definition hello :: comment where
  "hello = \<lparr>c_id = hello_id, c_text = ''hello'', c_user = bob_id, c_createdAt = 5\<rparr>"

definition sunset :: photo where
  "sunset = \<lparr>p_id = sunset_id, url = ''https://img/1'', description = ''sunset'', p_user = alice_id,
             likes = [bob_id], comments = [hello], p_createdAt = 3\<rparr>"

definition gallery :: store where
  "gallery = \<lparr>users = [alice, bob], photos = [sunset]\<rparr>"

definition noon :: world where
  "noon = \<lparr>clock = 10, fresh_id = new_id,
           uploader_upload = (\<lambda>p folder. Inr (''https://img/'' @ folder @ ''/'' @ p))\<rparr>"

definition offline :: world where
  "offline = \<lparr>clock = 10, fresh_id = new_id,
              uploader_upload = (\<lambda>p folder. Inl (UploadError ''timeout''))\<rparr>"

definition token_of :: "oid \<Rightarrow> string" where
  "token_of uid = ref_sign uid ''k'' ''2h'' 0"

definition payload_of :: "oid \<Rightarrow> decoded" where
  "payload_of uid = \<lparr>d_id = uid, iat = 0, exp = 7200\<rparr>"

definition request_of :: "verb \<Rightarrow> string list \<Rightarrow> string option \<Rightarrow> (string \<times> string) list \<Rightarrow> request" where
  "request_of v p h b =
     \<lparr>r_verb = v, path = p, authorization = h,
      body = map_of b,
      r_file = None, params = (\<lambda>_. [])\<rparr>"

text \<open>The request as the router hands it to a handler matched with one path parameter.\<close>

definition with_param :: "request \<Rightarrow> string \<Rightarrow> string \<Rightarrow> request" where
  "with_param req name v = req\<lparr>params := (\<lambda>_. [])(name := v)\<rparr>"

section \<open>Properties of the handlers\<close>

subsection \<open>The reference instance meets the library contract\<close>

lemma ts: "timespan ''2h'' = Some 7200" by (simp add: timespan_def unit_seconds_def)

lemma unesc_plain: "a \<noteq> CHR ''_'' \<Longrightarrow> unesc (a # r) = a # unesc r"
  by (cases r) simp_all

lemma unesc_esc: "unesc (esc s) = s"
  by (induction s) (simp_all add: esc_def enc_char_def dec_char_def unesc_plain)

lemma esc_clean: "CHR ''.'' \<notin> set (esc s) \<and> CHR '' '' \<notin> set (esc s)"
  by (induction s) (simp_all add: esc_def enc_char_def)

lemma split_dot_nodot: "CHR ''.'' \<notin> set a \<Longrightarrow> split_dot a = [a]"
  by (induction a) (auto split: list.splits)

lemma split_dot_append: "CHR ''.'' \<notin> set a \<Longrightarrow> split_dot (a @ CHR ''.'' # r) = a # split_dot r"
  by (induction a) (auto split: list.splits)

lemma split_dot_set: "x \<in> set tok \<Longrightarrow> x = CHR ''.'' \<or> (\<exists>s \<in> set (split_dot tok). x \<in> set s)"
  by (induction tok) (auto split: list.splits if_splits)

lemma unary_clean: "CHR ''.'' \<notin> set (unary n) \<and> CHR '' '' \<notin> set (unary n)"
  by (simp add: unary_def)


lemma ref_verify_sign:
  assumes "timespan x = Some d"
  shows "ref_verify (ref_sign uid s x n) s t =
           (if t < n + d then Some \<lparr>d_id = uid, iat = n, exp = n + d\<rparr> else None)"
proof -
  have "split_dot (ref_sign uid s x n) = [unary n, unary (n + d), esc uid, esc s]"
    using assms by (simp add: ref_sign_def split_dot_append split_dot_nodot unary_clean esc_clean)
  then show ?thesis
    by (simp add: ref_verify_def unesc_esc unary_def)
qed

lemma ref_sign_nonempty: "ref_sign uid s x n \<noteq> []"
  by (simp add: ref_sign_def split: option.splits)

lemma ref_verify_space:
  assumes "CHR '' '' \<in> set tok"
  shows "ref_verify tok s t = None"
proof (rule ccontr)
  assume "ref_verify tok s t \<noteq> None"
  then obtain a b c d where sp: "split_dot tok = [a, b, c, d]"
    and ok: "a = unary (length a)" "b = unary (length b)" "c = esc (unesc c)" "d = esc s"
    by (auto simp: ref_verify_def split: list.splits if_splits)
  from split_dot_set [OF assms] sp
  have "CHR '' '' \<in> set a \<or> CHR '' '' \<in> set b \<or> CHR '' '' \<in> set c \<or> CHR '' '' \<in> set d"
    by auto
  moreover have "CHR '' '' \<notin> set a" using ok(1) unary_clean [of "length a"] by simp
  moreover have "CHR '' '' \<notin> set b" using ok(2) unary_clean [of "length b"] by simp
  moreover have "CHR '' '' \<notin> set c" using ok(3) esc_clean [of "unesc c"] by simp
  moreover have "CHR '' '' \<notin> set d" using ok(4) esc_clean [of s] by simp
  ultimately show False by blast
qed

lemma ref_contract: "jwt_contract ref_env"
  unfolding jwt_contract_def
  by (simp add: ref_env_def ref_verify_sign ref_sign_nonempty ref_verify_space)

lemma cast_samples:
  "castObjectId ref_env sunset_id"
  "castObjectId ref_env other_id"
  "\<not> castObjectId ref_env ''zz''"
  by (simp_all add: ref_env_def hex24_def hex_digit_def)

lemma token_of_auth:
  "authorization req = Some (token_of uid) \<Longrightarrow> clock w < 7200 \<Longrightarrow>
   authenticated ref_env w req (payload_of uid)"
  by (simp add: authenticated_def token_of_def payload_of_def ref_env_def ref_verify_sign ts
      ref_sign_nonempty)

subsection \<open>Lemmas about the collections\<close>

lemma find_doc_id: "find_doc i ps = Some p \<Longrightarrow> p_id p = i"
  by (induction ps) (auto split: if_splits)

lemma find_doc_None: "find_doc i ps = None \<longleftrightarrow> i \<notin> p_id ` set ps"
  by (induction ps) auto

lemma find_replace_doc:
  "find_doc i ps = Some p \<Longrightarrow> p_id d = p_id p \<Longrightarrow>
   find_doc i (replace_doc d ps) = Some d"
  by (induction ps) (auto simp: find_doc_id split: if_splits)

lemma replace_doc_twice:
  "p_id d' = p_id d \<Longrightarrow> replace_doc d' (replace_doc d ps) = replace_doc d' ps"
  by (induction ps) auto

lemma map_id_replace_doc: "map p_id (replace_doc d ps) = map p_id ps"
  by (induction ps) auto

lemma find_delete_doc:
  "distinct (map p_id ps) \<Longrightarrow> find_doc i (delete_doc i ps) = None"
  by (induction ps) (auto simp: find_doc_None)

lemma distinct_delete_doc: "distinct (map p_id ps) \<Longrightarrow> distinct (map p_id (delete_doc i ps))"
proof (induction ps)
  case Nil then show ?case by simp
next
  case (Cons p ps)
  have "set (delete_doc i ps) \<subseteq> set ps" for ps
    by (induction ps) auto
  with Cons show ?case by auto
qed

lemma list_all_replace_doc:
  "list_all P ps \<Longrightarrow> P d \<Longrightarrow> list_all P (replace_doc d ps)"
  by (induction ps) auto

lemma list_all_delete_doc: "list_all P ps \<Longrightarrow> list_all P (delete_doc i ps)"
  by (induction ps) auto

lemma find_list_all: "find_doc i ps = Some p \<Longrightarrow> list_all P ps \<Longrightarrow> P p"
  by (induction ps) (auto split: if_splits)

lemma Photo_findById_Some:
  "Photo_findById e i ps = Inr (Some p) \<longleftrightarrow> castObjectId e i \<and> find_doc i ps = Some p"
  by (simp add: Photo_findById_def)

lemma Photo_findById_None:
  "Photo_findById e i ps = Inr None \<longleftrightarrow> castObjectId e i \<and> find_doc i ps = None"
  by (simp add: Photo_findById_def)

lemma Photo_findById_cast: "castObjectId e i \<Longrightarrow> Photo_findById e i ps = Inr (find_doc i ps)"
  by (simp add: Photo_findById_def)




subsection \<open>Lemmas about routing and the middleware\<close>

lemma protected_authenticated:
  "authenticated e w req user \<Longrightarrow>
   protected h e w (req\<lparr>params := ps\<rparr>) st = h user e w (req\<lparr>params := ps\<rparr>) st"
  by (auto simp: authenticated_def protected_def authMiddleware_def split: option.splits)


lemma route_login:
  "r_verb req = POST \<Longrightarrow> path req = [''login''] \<Longrightarrow> app e w req st = login e w req st"
  by (simp add: app_def routes_def login_def split: option.splits)

lemma route_upload:
  "r_verb req = POST \<Longrightarrow> path req = [''upload''] \<Longrightarrow>
   app e w req st = protected upload e w (req\<lparr>params := (\<lambda>_. [])\<rparr>) st"
  by (simp add: app_def routes_def)

lemma route_get_photos:
  "r_verb req = GET \<Longrightarrow> path req = [''photos''] \<Longrightarrow>
   app e w req st = protected get_photos e w (req\<lparr>params := (\<lambda>_. [])\<rparr>) st"
  by (simp add: app_def routes_def)

lemma route_post_comment:
  "r_verb req = POST \<Longrightarrow> path req = [''photos'', pid, ''comment''] \<Longrightarrow>
   app e w req st = protected post_comment_first e w (req\<lparr>params := (\<lambda>_. [])(''id'' := pid)\<rparr>) st"
  by (simp add: app_def routes_def)


lemma route_post_like:
  "r_verb req = POST \<Longrightarrow> path req = [''photos'', pid, ''like''] \<Longrightarrow>
   app e w req st = protected post_like e w (req\<lparr>params := (\<lambda>_. [])(''id'' := pid)\<rparr>) st"
  by (simp add: app_def routes_def)

lemma route_delete_comment:
  "r_verb req = DELETE \<Longrightarrow> path req = [''photos'', pid, ''comment'', cid] \<Longrightarrow>
   app e w req st =
     protected delete_comment e w
       (req\<lparr>params := (\<lambda>_. [])(''photoId'' := pid, ''commentId'' := cid)\<rparr>) st"
  by (simp add: app_def routes_def)

lemma route_delete_photo:
  "r_verb req = DELETE \<Longrightarrow> path req = [''photos'', pid] \<Longrightarrow>
   app e w req st = protected delete_photo e w (req\<lparr>params := (\<lambda>_. [])(''id'' := pid)\<rparr>) st"
  by (simp add: app_def routes_def)

subsection \<open>Ownership checks of the photo mutations\<close>




subsection \<open>The like toggle\<close>

lemma pull_absent: "x \<notin> set xs \<Longrightarrow> pull x xs = xs"
  by (induction xs) (auto simp: pull_def)

lemma set_pull: "set (pull x xs) = set xs - {x}"
  by (auto simp: pull_def)

lemma distinct_pull: "distinct xs \<Longrightarrow> distinct (pull x xs)"
  by (simp add: pull_def)

lemma length_pull: "distinct xs \<Longrightarrow> x \<in> set xs \<Longrightarrow> Suc (length (pull x xs)) = length xs"
  by (induction xs) (auto simp: pull_def pull_absent [unfolded pull_def])

lemma Photo_save_twice:
  "p_id p' = p_id p \<Longrightarrow> Photo_save p' (Photo_save p st) = Photo_save p' st"
  by (simp add: Photo_save_def replace_doc_twice)

lemma post_like_found:
  assumes "Photo_findById e (params req ''id'') (photos st) = Inr (Some photo)"
  shows "post_like user e w req st =
           ((200, Likes (length (if d_id user \<in> set (likes photo)
                                 then pull (d_id user) (likes photo)
                                 else likes photo @ [d_id user]))),
            Photo_save (photo\<lparr>likes := (if d_id user \<in> set (likes photo)
                                         then pull (d_id user) (likes photo)
                                         else likes photo @ [d_id user])\<rparr>) st)"
  using assms by (simp add: post_like_def Let_def)

text \<open>
  C2. For an existing photo and a user, \<open>POST /photos/:id/like\<close> removes the user
  from the likes when present and adds the user otherwise, and answers with the
  resulting count. A second toggle by the same user on the same photo brings the set of
  likes and the count back to what they were. The likes of the photo hold each user at
  most once, as they do in every store the handlers produce.
\<close>

theorem like_toggle_round_trip:
  assumes auth: "authenticated e w req user" "authenticated e w' req' user'"
    and same: "d_id user' = d_id user"
    and route: "r_verb req = POST" "path req = [''photos'', pid, ''like'']"
               "r_verb req' = POST" "path req' = [''photos'', pid, ''like'']"
    and found: "Photo_findById e pid (photos st) = Inr (Some photo)"
    and inv: "distinct (likes photo)"
  shows
    "(let u = d_id user;
          l0 = likes photo;
          l1 = (if u \<in> set l0 then pull u l0 else l0 @ [u]);
          l2 = (if u \<in> set l1 then pull u l1 else l1 @ [u]);
          st1 = snd (app e w req st);
          st2 = snd (app e w' req' st1)
      in app e w req st = ((200, Likes (length l1)), Photo_save (photo\<lparr>likes := l1\<rparr>) st)
         \<and> set l1 = (if u \<in> set l0 then set l0 - {u} else insert u (set l0))
         \<and> length l1 = (if u \<in> set l0 then length l0 - 1 else length l0 + 1)
         \<and> app e w' req' st1 = ((200, Likes (length l0)), Photo_save (photo\<lparr>likes := l2\<rparr>) st)
         \<and> Photo_findById e pid (photos st2) = Inr (Some (photo\<lparr>likes := l2\<rparr>))
         \<and> set l2 = set l0 \<and> length l2 = length l0 \<and> distinct l2)"
proof -
  let ?u = "d_id user"
  let ?l0 = "likes photo"
  let ?l1 = "if ?u \<in> set ?l0 then pull ?u ?l0 else ?l0 @ [?u]"
  let ?l2 = "if ?u \<in> set ?l1 then pull ?u ?l1 else ?l1 @ [?u]"
  let ?p1 = "photo\<lparr>likes := ?l1\<rparr>"
  let ?st1 = "snd (app e w req st)"
  let ?st2 = "snd (app e w' req' ?st1)"
  have cast: "castObjectId e pid" and doc: "find_doc pid (photos st) = Some photo"
    using found by (simp_all add: Photo_findById_Some)
  have first: "app e w req st = ((200, Likes (length ?l1)), Photo_save ?p1 st)"
    using route auth(1) found
    by (simp add: route_post_like protected_authenticated post_like_found)
  then have st1: "?st1 = Photo_save ?p1 st"
    by simp
  have found1: "Photo_findById e pid (photos (Photo_save ?p1 st)) = Inr (Some ?p1)"
    using cast doc by (simp add: Photo_findById_cast Photo_save_def find_replace_doc)
  have s1: "set ?l1 = (if ?u \<in> set ?l0 then set ?l0 - {?u} else insert ?u (set ?l0))"
    by (simp add: set_pull)
  have n1: "length ?l1 = (if ?u \<in> set ?l0 then length ?l0 - 1 else length ?l0 + 1)"
    using inv length_pull [of ?l0 ?u] by auto
  have d1: "distinct ?l1"
    using inv by (simp add: distinct_pull)
  have s2: "set ?l2 = set ?l0"
    by (auto simp: set_pull)
  have d2: "distinct ?l2"
    using inv by (auto simp: distinct_pull set_pull pull_absent)
  have n2: "length ?l2 = length ?l0"
  proof (cases "?u \<in> set ?l0")
    case True
    then have "?l2 = pull ?u ?l0 @ [?u]"
      by (simp add: set_pull)
    with True inv length_pull [of ?l0 ?u] show ?thesis
      by simp
  next
    case False
    then have "?l2 = pull ?u (?l0 @ [?u])"
      by simp
    with False show ?thesis
      by (simp add: pull_def pull_absent [unfolded pull_def])
  qed
  have "app e w' req' (Photo_save ?p1 st)
          = ((200, Likes (length ?l2)), Photo_save (?p1\<lparr>likes := ?l2\<rparr>) (Photo_save ?p1 st))"
    using route(3,4) auth(2) found1 same
    by (simp only: route_post_like protected_authenticated)
       (simp add: post_like_found)
  also have "Photo_save (?p1\<lparr>likes := ?l2\<rparr>) (Photo_save ?p1 st) = Photo_save (photo\<lparr>likes := ?l2\<rparr>) st"
    by (simp add: Photo_save_twice)
  finally have second: "app e w' req' ?st1
                          = ((200, Likes (length ?l0)), Photo_save (photo\<lparr>likes := ?l2\<rparr>) st)"
    unfolding st1 n2 .
  then have "?st2 = Photo_save (photo\<lparr>likes := ?l2\<rparr>) st"
    by simp
  then have found2: "Photo_findById e pid (photos ?st2) = Inr (Some (photo\<lparr>likes := ?l2\<rparr>))"
    using cast doc by (simp add: Photo_findById_cast Photo_save_def find_replace_doc)
  show ?thesis
    unfolding Let_def
    by (intro conjI) (fact first s1 n1 second found2 s2 n2 d2)+
qed


theorem like_toggle_round_trip_witness:
  "authenticated ref_env noon (request_of POST [''photos'', sunset_id, ''like''] (Some (token_of bob_id)) [])
     (payload_of bob_id)
   \<and> Photo_findById ref_env sunset_id (photos gallery) = Inr (Some sunset)
   \<and> distinct (likes sunset)
   \<and> app ref_env noon (request_of POST [''photos'', sunset_id, ''like''] (Some (token_of bob_id)) [])
       gallery
     = ((200, Likes 0), gallery\<lparr>photos := [sunset\<lparr>likes := []\<rparr>]\<rparr>)
   \<and> app ref_env noon (request_of POST [''photos'', sunset_id, ''like''] (Some (token_of bob_id)) [])
       (gallery\<lparr>photos := [sunset\<lparr>likes := []\<rparr>]\<rparr>)
     = ((200, Likes 1), gallery)"
proof -
  let ?req = "request_of POST [''photos'', sunset_id, ''like''] (Some (token_of bob_id)) []"
  have a: "authenticated ref_env noon ?req (payload_of bob_id)"
    by (rule token_of_auth) (simp_all add: request_of_def noon_def)
  have f: "Photo_findById ref_env sunset_id (photos gallery) = Inr (Some sunset)"
    by (simp add: Photo_findById_cast cast_samples gallery_def sunset_def)
  have d: "distinct (likes sunset)"
    by (simp add: sunset_def)
  have r: "r_verb ?req = POST" "path ?req = [''photos'', sunset_id, ''like'']"
    by (simp_all add: request_of_def)
  note t = like_toggle_round_trip [OF a a refl r r f d, unfolded Let_def]
  have l1: "(if d_id (payload_of bob_id) \<in> set (likes sunset)
             then pull (d_id (payload_of bob_id)) (likes sunset)
             else likes sunset @ [d_id (payload_of bob_id)]) = []"
    by (simp add: payload_of_def sunset_def pull_def)
  have s1: "Photo_save (sunset\<lparr>likes := []\<rparr>) gallery = gallery\<lparr>photos := [sunset\<lparr>likes := []\<rparr>]\<rparr>"
    by (simp add: Photo_save_def gallery_def)
  have s2: "Photo_save (sunset\<lparr>likes := [d_id (payload_of bob_id)]\<rparr>) gallery = gallery"
    by (simp add: Photo_save_def gallery_def sunset_def payload_of_def)
  have n: "length (likes sunset) = 1"
    by (simp add: sunset_def)
  have c1: "app ref_env noon ?req gallery
              = ((200, Likes 0), gallery\<lparr>photos := [sunset\<lparr>likes := []\<rparr>]\<rparr>)"
    using t [THEN conjunct1] by (simp add: l1 s1)
  then have st1: "snd (app ref_env noon ?req gallery) = gallery\<lparr>photos := [sunset\<lparr>likes := []\<rparr>]\<rparr>"
    by simp
  have c4: "app ref_env noon ?req (gallery\<lparr>photos := [sunset\<lparr>likes := []\<rparr>]\<rparr>)
              = ((200, Likes 1), gallery)"
    using t [THEN conjunct2, THEN conjunct2, THEN conjunct2, THEN conjunct1]
    by (simp add: l1 st1 s2 n)
  note c1 c4
  with a f d show ?thesis by simp
qed

subsection \<open>Deleting a photo takes its comments with it\<close>

text \<open>
  C3. After the owner's \<open>DELETE /photos/:id\<close> the photo, and with it every comment
  embedded in it, is gone from the store: the server's next
  \<open>DELETE /photos/:photoId/comment/:commentId\<close> on that photo, whatever the comment
  id and the caller, is answered with 404 and changes nothing, and so is any such request
  on a later store in which no photo has that id.
\<close>

theorem photo_delete_cascades:
  assumes "authenticated e w req user"
    and "r_verb req = DELETE" "path req = [''photos'', pid]"
    and "Photo_findById e pid (photos st) = Inr (Some photo)"
    and "p_user photo = d_id user"
    and "ids_distinct st"
    and "authenticated e w' req' user'"
    and "r_verb req' = DELETE" "path req' = [''photos'', pid, ''comment'', cid]"
  shows "app e w req st = ((200, Message True ''Photo deleted''), Photo_deleteOne photo st)
         \<and> Photo_findById e pid (photos (Photo_deleteOne photo st)) = Inr None
         \<and> app e w' req' (Photo_deleteOne photo st)
           = ((404, Message False ''Photo not found''), Photo_deleteOne photo st)
         \<and> (Photo_findById e pid (photos st') = Inr None \<longrightarrow>
              app e w' req' st' = ((404, Message False ''Photo not found''), st'))"
proof -
  have cast: "castObjectId e pid" and doc: "find_doc pid (photos st) = Some photo"
    using assms(4) by (simp_all add: Photo_findById_Some)
  have id: "p_id photo = pid"
    using doc by (rule find_doc_id)
  have del: "app e w req st = ((200, Message True ''Photo deleted''), Photo_deleteOne photo st)"
    using assms(1-5)
    by (simp add: route_delete_photo protected_authenticated delete_photo_def)
  have gone: "Photo_findById e pid (photos (Photo_deleteOne photo st)) = Inr None"
    using assms(6) id cast
    by (simp add: Photo_findById_cast Photo_deleteOne_def ids_distinct_def find_delete_doc)
  have absent: "app e w' req' s = ((404, Message False ''Photo not found''), s)"
    if "Photo_findById e pid (photos s) = Inr None" for s
    using assms(7-9) that
    by (simp add: route_delete_comment protected_authenticated delete_comment_def)
  from del gone absent [OF gone] absent [of st'] show ?thesis by simp
qed

theorem photo_delete_cascades_witness:
  "authenticated ref_env noon (request_of DELETE [''photos'', sunset_id] (Some (token_of alice_id)) [])
     (payload_of alice_id)
   \<and> authenticated ref_env noon
       (request_of DELETE [''photos'', sunset_id, ''comment'', hello_id] (Some (token_of bob_id)) [])
       (payload_of bob_id)
   \<and> Photo_findById ref_env sunset_id (photos gallery) = Inr (Some sunset)
   \<and> comments_id hello_id (comments sunset) = Some hello
   \<and> p_user sunset = d_id (payload_of alice_id) \<and> ids_distinct gallery
   \<and> app ref_env noon (request_of DELETE [''photos'', sunset_id] (Some (token_of alice_id)) []) gallery
     = ((200, Message True ''Photo deleted''), gallery\<lparr>photos := []\<rparr>)
   \<and> app ref_env noon
       (request_of DELETE [''photos'', sunset_id, ''comment'', hello_id] (Some (token_of bob_id)) [])
       (gallery\<lparr>photos := []\<rparr>)
     = ((404, Message False ''Photo not found''), gallery\<lparr>photos := []\<rparr>)
   \<and> Photo_findById ref_env sunset_id (photos empty_store) = Inr None
   \<and> app ref_env noon
       (request_of DELETE [''photos'', sunset_id, ''comment'', hello_id] (Some (token_of bob_id)) [])
       empty_store
     = ((404, Message False ''Photo not found''), empty_store)"
proof -
  let ?del = "request_of DELETE [''photos'', sunset_id] (Some (token_of alice_id)) []"
  let ?delc = "request_of DELETE [''photos'', sunset_id, ''comment'', hello_id] (Some (token_of bob_id)) []"
  have a: "authenticated ref_env noon ?del (payload_of alice_id)"
    by (rule token_of_auth) (simp_all add: request_of_def noon_def)
  have b: "authenticated ref_env noon ?delc (payload_of bob_id)"
    by (rule token_of_auth) (simp_all add: request_of_def noon_def)
  have f: "Photo_findById ref_env sunset_id (photos gallery) = Inr (Some sunset)"
    by (simp add: Photo_findById_cast cast_samples gallery_def sunset_def)
  have c: "comments_id hello_id (comments sunset) = Some hello"
    by (simp add: sunset_def hello_def)
  have o: "p_user sunset = d_id (payload_of alice_id)"
    by (simp add: sunset_def payload_of_def)
  have d: "ids_distinct gallery"
    by (simp add: ids_distinct_def gallery_def)
  have r: "r_verb ?del = DELETE" "path ?del = [''photos'', sunset_id]"
    by (simp_all add: request_of_def)
  have r': "r_verb ?delc = DELETE" "path ?delc = [''photos'', sunset_id, ''comment'', hello_id]"
    by (simp_all add: request_of_def)
  have s: "Photo_deleteOne sunset gallery = gallery\<lparr>photos := []\<rparr>"
    by (simp add: Photo_deleteOne_def gallery_def)
  have n: "Photo_findById ref_env sunset_id (photos empty_store) = Inr None"
    by (simp add: Photo_findById_cast cast_samples empty_store_def)
  from photo_delete_cascades [OF a r f o d b r', where st' = empty_store] a b f c o d n
  show ?thesis
    by (simp add: s)
qed

subsection \<open>Signup with an email already registered\<close>









subsection \<open>Failed logins\<close>

text \<open>
  C5, as the code has it. A login carrying the email of a stored user and a password
  that does not verify is answered with status 400 and the message
  "Invalid credentials"; a login carrying an email that belongs to no user is answered
  with status 400 and the message "User not found". The status is the same, the message
  is not, and the store is unchanged in both cases. A login carrying the email of a
  stored user and no password is answered with status 500: bcrypt rejects.
\<close>

theorem login_failure_kinds:
  assumes "r_verb req = POST" "path req = [''login'']"
    and "body req ''email'' = Some mail"
  shows "(case User_findOne mail (users st) of
            None \<Rightarrow> app e w req st = ((400, Message False ''User not found''), st)
          | Some user \<Rightarrow>
              (case body req ''password'' of
                 None \<Rightarrow> app e w req st = ((500, Failure BcryptError), st)
               | Some pw \<Rightarrow>
                   \<not> bcrypt_compare e pw (password user) \<longrightarrow>
                   app e w req st = ((400, Message False ''Invalid credentials''), st)))"
  using assms by (simp add: route_login login_def split: option.splits)

theorem login_failure_kinds_witness:
  "app ref_env noon
     (request_of POST [''login''] None [(''email'', ''a@x.com''), (''password'', ''bad'')]) gallery
     = ((400, Message False ''Invalid credentials''), gallery)
   \<and> app ref_env noon
       (request_of POST [''login''] None [(''email'', ''nobody@x.com''), (''password'', ''bad'')])
       gallery
     = ((400, Message False ''User not found''), gallery)
   \<and> app ref_env noon (request_of POST [''login''] None [(''email'', ''a@x.com'')]) gallery
     = ((500, Failure BcryptError), gallery)"
proof -
  let ?known = "request_of POST [''login''] None [(''email'', ''a@x.com''), (''password'', ''bad'')]"
  let ?unknown = "request_of POST [''login''] None
                    [(''email'', ''nobody@x.com''), (''password'', ''bad'')]"
  let ?nopw = "request_of POST [''login''] None [(''email'', ''a@x.com'')]"
  have k: "r_verb ?known = POST" "path ?known = [''login'']"
    "body ?known ''email'' = Some ''a@x.com''"
    by (simp_all add: request_of_def)
  have u: "r_verb ?unknown = POST" "path ?unknown = [''login'']"
    "body ?unknown ''email'' = Some ''nobody@x.com''"
    by (simp_all add: request_of_def)
  have n: "r_verb ?nopw = POST" "path ?nopw = [''login'']"
    "body ?nopw ''email'' = Some ''a@x.com''"
    by (simp_all add: request_of_def)
  have fk: "User_findOne ''a@x.com'' (users gallery) = Some alice"
    by (simp add: gallery_def alice_def)
  have fu: "User_findOne ''nobody@x.com'' (users gallery) = None"
    by (simp add: gallery_def alice_def bob_def)
  have pk: "body ?known ''password'' = Some ''bad''"
    by (simp add: request_of_def)
  have pn: "body ?nopw ''password'' = None"
    by (simp add: request_of_def)
  have bad: "\<not> bcrypt_compare ref_env ''bad'' (password alice)"
    by (simp add: ref_env_def alice_def)
  from login_failure_kinds [OF k, where st = gallery and e = ref_env and w = noon] bad
  have 1: "app ref_env noon ?known gallery = ((400, Message False ''Invalid credentials''), gallery)"
    by (simp add: fk pk)
  from login_failure_kinds [OF u, where st = gallery and e = ref_env and w = noon]
  have 2: "app ref_env noon ?unknown gallery = ((400, Message False ''User not found''), gallery)"
    by (simp add: fu)
  from login_failure_kinds [OF n, where st = gallery and e = ref_env and w = noon]
  have 3: "app ref_env noon ?nopw gallery = ((500, Failure BcryptError), gallery)"
    by (simp add: fk pn)
  from 1 2 3 show ?thesis by blast
qed

text \<open>
  C5 as stated does not hold: with an email that no user has, the answer is
  "User not found", which differs from the answer "Invalid credentials" given for a
  known email with a wrong password.
\<close>

theorem login_unknown_email_counterexample:
  "fst (login ref_env noon
          (request_of POST [''login''] None [(''email'', ''nobody@x.com''), (''password'', ''bad'')])
          gallery)
     = (400, Message False ''User not found'')
   \<and> fst (login ref_env noon
          (request_of POST [''login''] None [(''email'', ''a@x.com''), (''password'', ''bad'')])
          gallery)
     = (400, Message False ''Invalid credentials'')
   \<and> fst (login ref_env noon
          (request_of POST [''login''] None [(''email'', ''nobody@x.com''), (''password'', ''bad'')])
          gallery)
     \<noteq> fst (login ref_env noon
          (request_of POST [''login''] None [(''email'', ''a@x.com''), (''password'', ''bad'')])
          gallery)"
  by (simp add: login_def request_of_def gallery_def alice_def bob_def ref_env_def)

subsection \<open>From login to the middleware\<close>

text \<open>
  C6. For a stored user and a password that verifies, \<open>POST /login\<close> answers with
  a token signed with the server secret for the span "2h", together with the user's id
  and name. Presented as the \<open>authorization\<close> header, that token passes
  \<open>authMiddleware\<close> at every time before 7200 seconds after the login, and the
  payload handed on carries exactly the user's id; from 7200 seconds on the middleware
  answers 403. The library is assumed to meet \<open>jwt_contract\<close>.
\<close>

theorem login_token_round_trip:
  assumes "jwt_contract e"
    and "r_verb req = POST" "path req = [''login'']"
    and "body req ''email'' = Some mail" "User_findOne mail (users st) = Some u"
    and "body req ''password'' = Some pw" "bcrypt_compare e pw (password u)"
  shows
    "(let token = jwt_sign e (u_id u) (JWT_SECRET e) ''2h'' (clock w)
      in app e w req st = ((200, LoginOk token (u_id u) (username u)), st)
         \<and> (authorization req' = Some token \<longrightarrow>
              authMiddleware e w' req' next st' =
                (if clock w' < clock w + 7200
                 then next \<lparr>d_id = u_id u, iat = clock w, exp = clock w + 7200\<rparr> st'
                 else ((403, Message False ''Invalid token''), st'))))"
proof -
  let ?token = "jwt_sign e (u_id u) (JWT_SECRET e) ''2h'' (clock w)"
  have ok: "app e w req st = ((200, LoginOk ?token (u_id u) (username u)), st)"
    using assms(2-7) by (simp add: route_login login_def)
  have ne: "?token \<noteq> []"
    using assms(1) ts by (simp add: jwt_contract_def)
  have v: "jwt_verify e ?token (JWT_SECRET e) (clock w') =
             (if clock w' < clock w + 7200
              then Some \<lparr>d_id = u_id u, iat = clock w, exp = clock w + 7200\<rparr> else None)"
    using assms(1) ts by (simp add: jwt_contract_def)
  have "authMiddleware e w' req' next st' =
          (if clock w' < clock w + 7200
           then next \<lparr>d_id = u_id u, iat = clock w, exp = clock w + 7200\<rparr> st'
           else ((403, Message False ''Invalid token''), st'))"
    if "authorization req' = Some ?token"
    using that ne v by (simp add: authMiddleware_def)
  with ok show ?thesis
    by (simp add: Let_def)
qed

theorem login_token_round_trip_witness:
  "jwt_contract ref_env
   \<and> User_findOne ''a@x.com'' (users gallery) = Some alice
   \<and> bcrypt_compare ref_env ''pw'' (password alice)
   \<and> app ref_env noon
       (request_of POST [''login''] None [(''email'', ''a@x.com''), (''password'', ''pw'')]) gallery
     = ((200, LoginOk (ref_sign alice_id ''k'' ''2h'' 10)
                alice_id ''a''), gallery)
   \<and> protected delete_photo ref_env (noon\<lparr>clock := 7209\<rparr>)
       (request_of DELETE [''photos'', other_id]
          (Some (ref_sign alice_id ''k'' ''2h'' 10)) []) gallery
     = delete_photo \<lparr>d_id = alice_id, iat = 10, exp = 7210\<rparr> ref_env
         (noon\<lparr>clock := 7209\<rparr>)
         (request_of DELETE [''photos'', other_id]
            (Some (ref_sign alice_id ''k'' ''2h'' 10)) []) gallery
   \<and> protected delete_photo ref_env (noon\<lparr>clock := 7210\<rparr>)
       (request_of DELETE [''photos'', other_id]
          (Some (ref_sign alice_id ''k'' ''2h'' 10)) []) gallery
     = ((403, Message False ''Invalid token''), gallery)"
proof -
  let ?login = "request_of POST [''login''] None [(''email'', ''a@x.com''), (''password'', ''pw'')]"
  let ?del = "request_of DELETE [''photos'', other_id]
                (Some (ref_sign alice_id ''k'' ''2h'' 10)) []"
  have r: "r_verb ?login = POST" "path ?login = [''login'']"
    by (simp_all add: request_of_def)
  have m: "body ?login ''email'' = Some ''a@x.com''"
    and p: "body ?login ''password'' = Some ''pw''"
    by (simp_all add: request_of_def)
  have f: "User_findOne ''a@x.com'' (users gallery) = Some alice"
    by (simp add: gallery_def alice_def)
  have c: "bcrypt_compare ref_env ''pw'' (password alice)"
    by (simp add: ref_env_def alice_def)
  have h: "authorization ?del
             = Some (jwt_sign ref_env (u_id alice) (JWT_SECRET ref_env) ''2h'' (clock noon))"
    by (simp add: request_of_def ref_env_def alice_def noon_def)
  note t = login_token_round_trip [OF ref_contract r m f p c, where w = noon, unfolded Let_def]
  have 1: "app ref_env noon ?login gallery
             = ((200, LoginOk (ref_sign alice_id ''k'' ''2h'' 10)
                        alice_id ''a''), gallery)"
    using t [THEN conjunct1] by (simp add: ref_env_def alice_def noon_def)
  have 2: "protected delete_photo ref_env (noon\<lparr>clock := 7209\<rparr>) ?del gallery
             = delete_photo \<lparr>d_id = alice_id, iat = 10, exp = 7210\<rparr> ref_env
                 (noon\<lparr>clock := 7209\<rparr>) ?del gallery"
    using t [where w' = "noon\<lparr>clock := 7209\<rparr>", THEN conjunct2, rule_format, OF h]
    by (simp add: protected_def alice_def noon_def)
  have 3: "protected delete_photo ref_env (noon\<lparr>clock := 7210\<rparr>) ?del gallery
             = ((403, Message False ''Invalid token''), gallery)"
    using t [where w' = "noon\<lparr>clock := 7210\<rparr>", THEN conjunct2, rule_format, OF h]
    by (simp add: protected_def alice_def noon_def)
  from f c ref_contract 1 2 3 show ?thesis
    by blast
qed

subsection \<open>Upload\<close>

text \<open>
  C7. For \<open>POST /upload\<close>: when the media host rejects the file, the store after the
  request is the store before it and the status is not 200 (for an authenticated caller,
  500 with the host's error). Whenever the store does change, the caller was
  authenticated, the host returned a URL, and the change is exactly one new photo whose
  \<open>url\<close> is that URL.
\<close>

theorem upload_persists_only_after_success:
  assumes "r_verb req = POST" "path req = [''upload'']"
  shows
    "(r_file req = Some fp \<and> uploader_upload w fp ''gallery'' = Inl err \<longrightarrow>
        snd (app e w req st) = st \<and> fst (fst (app e w req st)) \<noteq> 200
        \<and> (authenticated e w req user \<longrightarrow> app e w req st = ((500, Failure err), st)))
     \<and> (snd (app e w req st) \<noteq> st \<longrightarrow>
        (\<exists>caller file_path secure_url.
           authenticated e w req caller \<and> r_file req = Some file_path
           \<and> uploader_upload w file_path ''gallery'' = Inr secure_url
           \<and> app e w req st =
               ((200, PhotoDoc \<lparr>p_id = fresh_id w, url = secure_url,
                                description = field req ''description'',
                                p_user = d_id caller, likes = [], comments = [],
                                p_createdAt = clock w\<rparr>),
                st\<lparr>photos := photos st @
                     [\<lparr>p_id = fresh_id w, url = secure_url,
                       description = field req ''description'',
                       p_user = d_id caller, likes = [], comments = [],
                       p_createdAt = clock w\<rparr>]\<rparr>)))"
proof -
  have app: "app e w req st = protected upload e w (req\<lparr>params := (\<lambda>_. [])\<rparr>) st"
    using assms by (rule route_upload)
  show ?thesis
    unfolding app
    by (auto simp: protected_def authMiddleware_def authenticated_def upload_def
        Photo_insert_def Let_def field_def split: option.splits sum.splits if_splits)
qed


theorem upload_persists_only_after_success_witness:
  "authenticated ref_env offline
     ((request_of POST [''upload''] (Some (token_of alice_id)) [(''description'', ''dawn'')])
        \<lparr>r_file := Some ''/tmp/x.png''\<rparr>) (payload_of alice_id)
   \<and> uploader_upload offline ''/tmp/x.png'' ''gallery'' = Inl (UploadError ''timeout'')
   \<and> app ref_env offline
       ((request_of POST [''upload''] (Some (token_of alice_id)) [(''description'', ''dawn'')])
          \<lparr>r_file := Some ''/tmp/x.png''\<rparr>) gallery
     = ((500, Failure (UploadError ''timeout'')), gallery)
   \<and> snd (app ref_env noon
       ((request_of POST [''upload''] (Some (token_of alice_id)) [(''description'', ''dawn'')])
          \<lparr>r_file := Some ''/tmp/x.png''\<rparr>) gallery)
     = gallery\<lparr>photos := [sunset,
         \<lparr>p_id = new_id, url = ''https://img/gallery//tmp/x.png'', description = ''dawn'',
           p_user = alice_id, likes = [], comments = [], p_createdAt = 10\<rparr>]\<rparr>
   \<and> snd (app ref_env noon
       ((request_of POST [''upload''] (Some (token_of alice_id)) [(''description'', ''dawn'')])
          \<lparr>r_file := Some ''/tmp/x.png''\<rparr>) gallery) \<noteq> gallery"
proof -
  let ?up = "(request_of POST [''upload''] (Some (token_of alice_id)) [(''description'', ''dawn'')])
               \<lparr>r_file := Some ''/tmp/x.png''\<rparr>"
  let ?new = "\<lparr>p_id = new_id, url = ''https://img/gallery//tmp/x.png'', description = ''dawn'',
                p_user = alice_id, likes = [], comments = [], p_createdAt = 10\<rparr>"
  have r: "r_verb ?up = POST" "path ?up = [''upload'']"
    by (simp_all add: request_of_def)
  have a: "authenticated ref_env offline ?up (payload_of alice_id)"
    by (rule token_of_auth) (simp_all add: request_of_def offline_def)
  have a': "authenticated ref_env noon ?up (payload_of alice_id)"
    by (rule token_of_auth) (simp_all add: request_of_def noon_def)
  have f: "r_file ?up = Some ''/tmp/x.png''"
    by (simp add: request_of_def)
  have u: "uploader_upload offline ''/tmp/x.png'' ''gallery'' = Inl (UploadError ''timeout'')"
    by (simp add: offline_def)
  note t = upload_persists_only_after_success [OF r]
  have 1: "app ref_env offline ?up gallery = ((500, Failure (UploadError ''timeout'')), gallery)"
    using t [where w = offline, THEN conjunct1, rule_format, OF conjI, OF f u] a by blast
  have "app ref_env noon ?up gallery
          = upload (payload_of alice_id) ref_env noon (?up\<lparr>params := (\<lambda>_. [])\<rparr>) gallery"
    using r a' by (simp only: route_upload protected_authenticated)
  also have "\<dots> = ((200, PhotoDoc ?new), gallery\<lparr>photos := [sunset, ?new]\<rparr>)"
    by (simp add: upload_def Photo_insert_def Let_def request_of_def noon_def gallery_def
        sunset_def payload_of_def field_def)
  finally have 2: "snd (app ref_env noon ?up gallery) = gallery\<lparr>photos := [sunset, ?new]\<rparr>"
    by simp
  have 3: "snd (app ref_env noon ?up gallery) \<noteq> gallery"
    unfolding 2 by (simp add: gallery_def)
  from t [where w = noon and e = ref_env and st = gallery, THEN conjunct2, rule_format, OF 3]
  have "url (last (photos (snd (app ref_env noon ?up gallery))))
          = ''https://img/gallery//tmp/x.png''"
    by (auto simp: f noon_def)
  with a u 1 2 3 show ?thesis by simp
qed

subsection \<open>Invariants of the store\<close>

lemma dispatch_preserves:
  assumes "\<And>v pat h e w req st. (v, pat, h) \<in> set rs \<Longrightarrow> P st \<Longrightarrow> P (snd (h e w req st))"
    and "P st"
  shows "P (snd (dispatch rs e w req st))"
  using assms(1)
proof (induction rs)
  case Nil
  from assms(2) show ?case by simp
next
  case (Cons r rs)
  obtain v pat h where r: "r = (v, pat, h)"
    by (cases r)
  have rest: "P (snd (dispatch rs e w req st))"
  proof (rule Cons.IH)
    fix v' pat' h' e' w' req' st'
    assume "(v', pat', h') \<in> set rs" and "P st'"
    then show "P (snd (h' e' w' req' st'))"
      using Cons.prems [of v' pat' h' st' e' w' req'] by simp
  qed
  have here: "P (snd (h e w rq st))" for rq
    by (rule Cons.prems [of v pat]) (simp_all add: r assms(2))
  from rest here show ?case
    by (simp add: r split: option.splits)
qed

lemma protected_preserves:
  assumes "\<And>user. P (snd (h user e w req st))" and "P st"
  shows "P (snd (protected h e w req st))"
  using assms by (auto simp: protected_def authMiddleware_def split: option.splits)

lemma run_preserves:
  assumes "\<And>w req st. P st \<Longrightarrow> P (snd (app e w req st))" and "P st"
  shows "P (run e rs st)"
  using assms(2)
proof (induction rs arbitrary: st)
  case Nil
  then show ?case by simp
next
  case (Cons r rs)
  obtain w req where "r = (w, req)"
    by (cases r)
  with Cons assms(1) show ?case by simp
qed

lemma signup_photos: "photos (snd (signup e w req st)) = photos st"
  by (auto simp: signup_def User_save_def Let_def split: option.splits)

lemma login_store: "snd (login e w req st) = st"
  by (simp add: login_def split: option.splits)

lemma get_photos_store: "snd (get_photos user e w req st) = st"
  by (simp add: get_photos_def)

lemma post_like_likes_distinct:
  "likes_distinct st \<Longrightarrow> likes_distinct (snd (post_like user e w req st))"
  by (auto simp: post_like_def likes_distinct_def Photo_findById_def Photo_save_def Let_def
      distinct_pull
      intro!: list_all_replace_doc dest: find_list_all
      split: option.splits sum.splits if_splits)

lemma upload_likes_distinct:
  "likes_distinct st \<Longrightarrow> likes_distinct (snd (upload user e w req st))"
  by (auto simp: upload_def likes_distinct_def Photo_insert_def Let_def
      split: option.splits sum.splits)

lemma post_comment_first_likes_distinct:
  "likes_distinct st \<Longrightarrow> likes_distinct (snd (post_comment_first user e w req st))"
  by (auto simp: post_comment_first_def likes_distinct_def Photo_findById_def Photo_save_def Let_def
      intro!: list_all_replace_doc dest: find_list_all
      split: option.splits sum.splits if_splits)

lemma post_comment_second_likes_distinct:
  "likes_distinct st \<Longrightarrow> likes_distinct (snd (post_comment_second user e w req st))"
  by (auto simp: post_comment_second_def likes_distinct_def Photo_findById_def Photo_save_def Let_def
      intro!: list_all_replace_doc dest: find_list_all
      split: option.splits sum.splits if_splits)

lemma put_description_likes_distinct:
  "likes_distinct st \<Longrightarrow> likes_distinct (snd (put_description user e w req st))"
  by (auto simp: put_description_def likes_distinct_def Photo_findById_def Photo_save_def Let_def
      intro!: list_all_replace_doc dest: find_list_all
      split: option.splits sum.splits if_splits)

lemma delete_comment_likes_distinct:
  "likes_distinct st \<Longrightarrow> likes_distinct (snd (delete_comment user e w req st))"
  by (auto simp: delete_comment_def likes_distinct_def Photo_findById_def Photo_save_def Let_def
      intro!: list_all_replace_doc dest: find_list_all
      split: option.splits sum.splits if_splits)

lemma delete_photo_likes_distinct:
  "likes_distinct st \<Longrightarrow> likes_distinct (snd (delete_photo user e w req st))"
  by (auto simp: delete_photo_def likes_distinct_def Photo_findById_def Photo_deleteOne_def
      intro!: list_all_delete_doc split: option.splits sum.splits if_splits)

lemma app_likes_distinct:
  assumes "likes_distinct st"
  shows "likes_distinct (snd (app e w req st))"
  unfolding app_def
proof (rule dispatch_preserves [where P = likes_distinct, OF _ assms])
  fix v pat h e w req st
  assume "(v, pat, h) \<in> set routes" and inv: "likes_distinct st"
  then consider "h = signup" | "h = login" | "h = protected upload" | "h = protected get_photos"
    | "h = protected post_comment_first" | "h = protected put_description"
    | "h = protected post_like" | "h = protected post_comment_second"
    | "h = protected delete_comment" | "h = protected delete_photo"
    by (auto simp: routes_def)
  then show "likes_distinct (snd (h e w req st))"
  proof cases
    case 1
    with inv show ?thesis by (simp add: likes_distinct_def signup_photos)
  next
    case 2
    with inv show ?thesis by (simp add: login_store)
  next
    case 3
    with inv show ?thesis by (simp add: protected_preserves upload_likes_distinct)
  next
    case 4
    with inv show ?thesis by (simp add: protected_preserves get_photos_store)
  next
    case 5
    with inv show ?thesis by (simp add: protected_preserves post_comment_first_likes_distinct)
  next
    case 6
    with inv show ?thesis by (simp add: protected_preserves put_description_likes_distinct)
  next
    case 7
    with inv show ?thesis by (simp add: protected_preserves post_like_likes_distinct)
  next
    case 8
    with inv show ?thesis by (simp add: protected_preserves post_comment_second_likes_distinct)
  next
    case 9
    with inv show ?thesis by (simp add: protected_preserves delete_comment_likes_distinct)
  next
    case 10
    with inv show ?thesis by (simp add: protected_preserves delete_photo_likes_distinct)
  qed
qed


lemma Photo_save_ids_distinct: "ids_distinct st \<Longrightarrow> ids_distinct (Photo_save p st)"
  by (simp add: ids_distinct_def Photo_save_def map_id_replace_doc)

lemma app_ids_distinct:
  assumes "ids_distinct st"
  shows "ids_distinct (snd (app e w req st))"
  unfolding app_def
proof (rule dispatch_preserves [where P = ids_distinct, OF _ assms])
  fix v pat h e w req st
  assume "(v, pat, h) \<in> set routes" and inv: "ids_distinct st"
  then consider "h = signup" | "h = login" | "h = protected upload" | "h = protected get_photos"
    | "h = protected post_comment_first" | "h = protected put_description"
    | "h = protected post_like" | "h = protected post_comment_second"
    | "h = protected delete_comment" | "h = protected delete_photo"
    by (auto simp: routes_def)
  then show "ids_distinct (snd (h e w req st))"
  proof cases
    case 1
    with inv show ?thesis by (simp add: ids_distinct_def signup_photos)
  next
    case 2
    with inv show ?thesis by (simp add: login_store)
  next
    case 3
    have "ids_distinct (snd (upload user e w req st))" for user
      using inv
      by (auto simp: upload_def Photo_insert_def ids_distinct_def Let_def find_doc_None
          split: option.splits sum.splits)
    with 3 inv show ?thesis by (simp add: protected_preserves)
  next
    case 4
    with inv show ?thesis by (simp add: protected_preserves get_photos_store)
  next
    case 5
    have "ids_distinct (snd (post_comment_first user e w req st))" for user
      using inv
      by (auto simp: post_comment_first_def Let_def Photo_save_ids_distinct
          split: option.splits sum.splits)
    with 5 inv show ?thesis by (simp add: protected_preserves)
  next
    case 6
    have "ids_distinct (snd (put_description user e w req st))" for user
      using inv
      by (auto simp: put_description_def Let_def Photo_save_ids_distinct
          split: option.splits sum.splits)
    with 6 inv show ?thesis by (simp add: protected_preserves)
  next
    case 7
    have "ids_distinct (snd (post_like user e w req st))" for user
      using inv
      by (auto simp: post_like_def Let_def Photo_save_ids_distinct
          split: option.splits sum.splits)
    with 7 inv show ?thesis by (simp add: protected_preserves)
  next
    case 8
    have "ids_distinct (snd (post_comment_second user e w req st))" for user
      using inv
      by (auto simp: post_comment_second_def Let_def Photo_save_ids_distinct
          split: option.splits sum.splits)
    with 8 inv show ?thesis by (simp add: protected_preserves)
  next
    case 9
    have "ids_distinct (snd (delete_comment user e w req st))" for user
      using inv
      by (auto simp: delete_comment_def Let_def Photo_save_ids_distinct
          split: option.splits sum.splits)
    with 9 inv show ?thesis by (simp add: protected_preserves)
  next
    case 10
    have "ids_distinct (snd (delete_photo user e w req st))" for user
      using inv
      by (auto simp: delete_photo_def Photo_deleteOne_def ids_distinct_def distinct_delete_doc
          split: option.splits sum.splits)
    with 10 inv show ?thesis by (simp add: protected_preserves)
  qed
qed

lemma run_ids_distinct: "ids_distinct (run e rs empty_store)"
proof (rule run_preserves [where P = ids_distinct])
  show "ids_distinct empty_store"
    by (simp add: ids_distinct_def empty_store_def)
qed (rule app_ids_distinct)

lemma count_list_pull: "count_list (pull x xs) x = 0"
  by (simp add: pull_def)

text \<open>
  C8. Every photo's likes hold each user at most once: this holds in every store reached
  from the empty one by any sequence of requests, it is preserved by every request, and
  the like toggle leaves the caller in the likes exactly when the caller was not there
  before, never more than once.
\<close>

theorem likes_hold_each_user_once:
  "likes_distinct (run e rs empty_store)
   \<and> (likes_distinct st \<longrightarrow> likes_distinct (snd (app e w req st)))
   \<and> (Photo_findById e (params req ''id'') (photos st) = Inr (Some photo) \<longrightarrow>
        (\<exists>photo'. Photo_findById e (params req ''id'') (photos (snd (post_like user e w req st)))
                    = Inr (Some photo')
           \<and> (d_id user \<in> set (likes photo') \<longleftrightarrow> d_id user \<notin> set (likes photo))
           \<and> count_list (likes photo') (d_id user) \<le> 1
           \<and> (distinct (likes photo) \<longrightarrow> distinct (likes photo'))))"
proof (intro conjI impI)
  show "likes_distinct (run e rs empty_store)"
  proof (rule run_preserves [where P = likes_distinct])
    show "likes_distinct empty_store"
      by (simp add: likes_distinct_def empty_store_def)
  qed (rule app_likes_distinct)
next
  assume "likes_distinct st"
  then show "likes_distinct (snd (app e w req st))"
    by (rule app_likes_distinct)
next
  assume found: "Photo_findById e (params req ''id'') (photos st) = Inr (Some photo)"
  then have cast: "castObjectId e (params req ''id'')"
    and doc: "find_doc (params req ''id'') (photos st) = Some photo"
    by (simp_all add: Photo_findById_Some)
  let ?u = "d_id user"
  let ?l1 = "if ?u \<in> set (likes photo) then pull ?u (likes photo) else likes photo @ [?u]"
  have "snd (post_like user e w req st) = Photo_save (photo\<lparr>likes := ?l1\<rparr>) st"
    using found by (simp add: post_like_found)
  then have f: "Photo_findById e (params req ''id'') (photos (snd (post_like user e w req st)))
                  = Inr (Some (photo\<lparr>likes := ?l1\<rparr>))"
    using cast doc by (simp add: Photo_findById_cast Photo_save_def find_replace_doc)
  have m: "?u \<in> set ?l1 \<longleftrightarrow> ?u \<notin> set (likes photo)"
    by (simp add: set_pull)
  have c: "count_list ?l1 ?u \<le> 1"
    by (simp add: count_list_pull count_list_0_iff)
  have d: "distinct (likes photo) \<longrightarrow> distinct ?l1"
    by (simp add: distinct_pull)
  from f m c d
  show "\<exists>photo'. Photo_findById e (params req ''id'') (photos (snd (post_like user e w req st)))
                    = Inr (Some photo')
           \<and> (d_id user \<in> set (likes photo') \<longleftrightarrow> d_id user \<notin> set (likes photo))
           \<and> count_list (likes photo') (d_id user) \<le> 1
           \<and> (distinct (likes photo) \<longrightarrow> distinct (likes photo'))"
    by (intro exI [of _ "photo\<lparr>likes := ?l1\<rparr>"]) simp
qed

theorem likes_hold_each_user_once_witness:
  "likes_distinct gallery
   \<and> likes_distinct (snd (app ref_env noon
        (request_of POST [''photos'', sunset_id, ''like''] (Some (token_of alice_id)) []) gallery))
   \<and> Photo_findById ref_env sunset_id (photos gallery) = Inr (Some sunset)
   \<and> distinct (likes sunset)
   \<and> (\<exists>photo'. Photo_findById ref_env sunset_id
                   (photos (snd (post_like (payload_of alice_id) ref_env noon
                      ((request_of POST [''photos'', sunset_id, ''like''] (Some (token_of alice_id)) [])
                         \<lparr>params := (\<lambda>_. [])(''id'' := sunset_id)\<rparr>) gallery)))
                 = Inr (Some photo')
          \<and> alice_id \<in> set (likes photo') \<and> distinct (likes photo'))"
proof -
  let ?req = "request_of POST [''photos'', sunset_id, ''like''] (Some (token_of alice_id)) []"
  let ?rq = "?req\<lparr>params := (\<lambda>_. [])(''id'' := sunset_id)\<rparr>"
  have g: "likes_distinct gallery"
    by (simp add: likes_distinct_def gallery_def sunset_def)
  have f: "Photo_findById ref_env (params ?rq ''id'') (photos gallery) = Inr (Some sunset)"
    by (simp add: Photo_findById_cast cast_samples gallery_def sunset_def)
  have d: "distinct (likes sunset)"
    by (simp add: sunset_def)
  have n: "d_id (payload_of alice_id) \<notin> set (likes sunset)"
    by (simp add: sunset_def payload_of_def)
  note t = likes_hold_each_user_once [where st = gallery and e = ref_env and w = noon]
  have 1: "likes_distinct (snd (app ref_env noon ?req gallery))"
    using t [THEN conjunct2, THEN conjunct1] g by blast
  from t [where req = ?rq and user = "payload_of alice_id" and photo = sunset,
      THEN conjunct2, THEN conjunct2, rule_format, OF f] d n
  have 2: "\<exists>photo'. Photo_findById ref_env sunset_id
                      (photos (snd (post_like (payload_of alice_id) ref_env noon ?rq gallery)))
                    = Inr (Some photo')
             \<and> alice_id \<in> set (likes photo') \<and> distinct (likes photo')"
    by (auto simp: payload_of_def)
  from g 1 f d 2 show ?thesis by simp
qed

subsection \<open>The two registrations of the comment route\<close>

lemma post_comment_first_found:
  assumes "Photo_findById e (params req ''id'') (photos st) = Inr (Some photo)"
  shows "post_comment_first user e w req st =
           ((200, Comments (map (populate_comment (users st))
                      (comments photo @
                         [\<lparr>c_id = fresh_id w, c_text = field req ''text'', c_user = d_id user,
                           c_createdAt = clock w\<rparr>]))),
            Photo_save (photo\<lparr>comments := comments photo @
                         [\<lparr>c_id = fresh_id w, c_text = field req ''text'', c_user = d_id user,
                           c_createdAt = clock w\<rparr>]\<rparr>) st)"
  using assms
  by (simp add: post_comment_first_def Let_def Photo_findById_def Photo_save_def
      find_replace_doc split: if_splits)

lemma post_comment_second_found:
  assumes "Photo_findById e (params req ''id'') (photos st) = Inr (Some photo)"
  shows "post_comment_second user e w req st =
           ((200, Comments (map raw_comment
                      (comments photo @
                         [\<lparr>c_id = fresh_id w, c_text = field req ''text'', c_user = d_id user,
                           c_createdAt = clock w\<rparr>]))),
            Photo_save (photo\<lparr>comments := comments photo @
                         [\<lparr>c_id = fresh_id w, c_text = field req ''text'', c_user = d_id user,
                           c_createdAt = clock w\<rparr>]\<rparr>) st)"
  using assms by (simp add: post_comment_second_def Let_def)

lemma post_comment_same_effect:
  "snd (post_comment_first user e w req st) = snd (post_comment_second user e w req st)
   \<and> fst (fst (post_comment_first user e w req st)) = fst (fst (post_comment_second user e w req st))"
proof (cases "Photo_findById e (params req ''id'') (photos st)")
  case (Inl err)
  then show ?thesis
    by (simp add: post_comment_first_def post_comment_second_def)
next
  case (Inr found)
  show ?thesis
  proof (cases found)
    case None
    with Inr show ?thesis
      by (simp add: post_comment_first_def post_comment_second_def)
  next
    case (Some photo)
    with Inr show ?thesis
      by (simp add: post_comment_first_found post_comment_second_found)
  qed
qed

text \<open>
  C9, as the code has it. \<open>POST /photos/:id/comment\<close> is registered twice. Every such
  request is answered by the first registration; the second is never reached. The two
  handlers change the store in the same way and answer with the same status, but their
  bodies are not the same: the first reads the photo again and returns the comments with
  each author populated (id and username, or null), the second would return them with
  the bare author id.
\<close>

theorem comment_route_first_registration:
  assumes "r_verb req = POST" "path req = [''photos'', pid, ''comment'']"
  shows
    "(let rq = with_param req ''id'' pid;
          first = protected post_comment_first e w rq st;
          second = protected post_comment_second e w rq st
      in app e w req st = first
         \<and> snd first = snd second
         \<and> fst (fst first) = fst (fst second)
         \<and> (authenticated e w req user \<and> Photo_findById e pid (photos st) = Inr (Some photo) \<longrightarrow>
              (let cs = comments photo @
                          [\<lparr>c_id = fresh_id w, c_text = field req ''text'', c_user = d_id user,
                            c_createdAt = clock w\<rparr>]
               in fst first = (200, Comments (map (populate_comment (users st)) cs))
                  \<and> fst second = (200, Comments (map raw_comment cs)))))"
proof -
  let ?rq = "req\<lparr>params := (\<lambda>_. [])(''id'' := pid)\<rparr>"
  let ?first = "protected post_comment_first e w ?rq st"
  let ?second = "protected post_comment_second e w ?rq st"
  have a: "app e w req st = ?first"
    using assms by (rule route_post_comment)
  have b: "snd ?first = snd ?second \<and> fst (fst ?first) = fst (fst ?second)"
    using post_comment_same_effect [of _ e w ?rq st]
    by (simp add: protected_def authMiddleware_def split: option.splits)
  have c: "fst ?first
             = (200, Comments (map (populate_comment (users st))
                  (comments photo @
                     [\<lparr>c_id = fresh_id w, c_text = field req ''text'', c_user = d_id user,
                       c_createdAt = clock w\<rparr>])))
           \<and> fst ?second
             = (200, Comments (map raw_comment
                  (comments photo @
                     [\<lparr>c_id = fresh_id w, c_text = field req ''text'', c_user = d_id user,
                       c_createdAt = clock w\<rparr>])))"
    if "authenticated e w req user" "Photo_findById e pid (photos st) = Inr (Some photo)"
    using that
    by (simp add: protected_authenticated post_comment_first_found post_comment_second_found
        field_def)
  from a b c show ?thesis
    by (simp add: Let_def with_param_def)
qed

theorem comment_route_first_registration_witness:
  "authenticated ref_env noon
     (request_of POST [''photos'', sunset_id, ''comment''] (Some (token_of alice_id)) [(''text'', ''nice'')])
     (payload_of alice_id)
   \<and> Photo_findById ref_env sunset_id (photos gallery) = Inr (Some sunset)
   \<and> app ref_env noon
       (request_of POST [''photos'', sunset_id, ''comment''] (Some (token_of alice_id))
          [(''text'', ''nice'')]) gallery
     = protected post_comment_first ref_env noon
         (with_param (request_of POST [''photos'', sunset_id, ''comment''] (Some (token_of alice_id))
            [(''text'', ''nice'')]) ''id'' sunset_id) gallery
   \<and> fst (protected post_comment_first ref_env noon
         (with_param (request_of POST [''photos'', sunset_id, ''comment''] (Some (token_of alice_id))
            [(''text'', ''nice'')]) ''id'' sunset_id) gallery)
     = (200, Comments
          [\<lparr>j_id = hello_id, j_text = ''hello'', j_user = AuthorDoc bob_id ''b'', j_createdAt = 5\<rparr>,
           \<lparr>j_id = new_id, j_text = ''nice'', j_user = AuthorDoc alice_id ''a'', j_createdAt = 10\<rparr>])"
proof -
  let ?req = "request_of POST [''photos'', sunset_id, ''comment''] (Some (token_of alice_id))
                [(''text'', ''nice'')]"
  have r: "r_verb ?req = POST" "path ?req = [''photos'', sunset_id, ''comment'']"
    by (simp_all add: request_of_def)
  have a: "authenticated ref_env noon ?req (payload_of alice_id)"
    by (rule token_of_auth) (simp_all add: request_of_def noon_def)
  have f: "Photo_findById ref_env sunset_id (photos gallery) = Inr (Some sunset)"
    by (simp add: Photo_findById_cast cast_samples gallery_def sunset_def)
  note t = comment_route_first_registration
             [OF r, where e = ref_env and w = noon and st = gallery, unfolded Let_def]
  note t1 = t [THEN conjunct1]
  note t4 = t [THEN conjunct2, THEN conjunct2, THEN conjunct2, rule_format, OF conjI, OF a f,
               THEN conjunct1]
  have "map (populate_comment (users gallery))
          (comments sunset @
             [\<lparr>c_id = fresh_id noon, c_text = field ?req ''text'', c_user = d_id (payload_of alice_id),
               c_createdAt = clock noon\<rparr>])
        = [\<lparr>j_id = hello_id, j_text = ''hello'', j_user = AuthorDoc bob_id ''b'', j_createdAt = 5\<rparr>,
           \<lparr>j_id = new_id, j_text = ''nice'', j_user = AuthorDoc alice_id ''a'', j_createdAt = 10\<rparr>]"
    by (simp add: populate_comment_def gallery_def sunset_def hello_def alice_def bob_def
        noon_def request_of_def payload_of_def field_def)
  with t4 a f t1 show ?thesis
    by simp
qed

text \<open>
  C9 as stated does not hold: on the sample store the endpoint answers with populated
  authors, and the second handler, run on the same request, answers with author ids; the
  endpoint is not equal to "either handler".
\<close>

theorem comment_handlers_differ_counterexample:
  "fst (app ref_env noon
          (request_of POST [''photos'', sunset_id, ''comment''] (Some (token_of alice_id))
             [(''text'', ''nice'')]) gallery)
     = (200, Comments
          [\<lparr>j_id = hello_id, j_text = ''hello'', j_user = AuthorDoc bob_id ''b'', j_createdAt = 5\<rparr>,
           \<lparr>j_id = new_id, j_text = ''nice'', j_user = AuthorDoc alice_id ''a'', j_createdAt = 10\<rparr>])
   \<and> fst (protected post_comment_second ref_env noon
          (with_param (request_of POST [''photos'', sunset_id, ''comment''] (Some (token_of alice_id))
             [(''text'', ''nice'')]) ''id'' sunset_id) gallery)
     = (200, Comments
          [\<lparr>j_id = hello_id, j_text = ''hello'', j_user = AuthorId bob_id, j_createdAt = 5\<rparr>,
           \<lparr>j_id = new_id, j_text = ''nice'', j_user = AuthorId alice_id, j_createdAt = 10\<rparr>])
   \<and> fst (app ref_env noon
          (request_of POST [''photos'', sunset_id, ''comment''] (Some (token_of alice_id))
             [(''text'', ''nice'')]) gallery)
     \<noteq> fst (protected post_comment_second ref_env noon
          (with_param (request_of POST [''photos'', sunset_id, ''comment''] (Some (token_of alice_id))
             [(''text'', ''nice'')]) ''id'' sunset_id) gallery)"
proof -
  let ?req = "request_of POST [''photos'', sunset_id, ''comment''] (Some (token_of alice_id))
                [(''text'', ''nice'')]"
  let ?rq = "?req\<lparr>params := (\<lambda>_. [])(''id'' := sunset_id)\<rparr>"
  have r: "r_verb ?req = POST" "path ?req = [''photos'', sunset_id, ''comment'']"
    by (simp_all add: request_of_def)
  have a: "authenticated ref_env noon ?req (payload_of alice_id)"
    by (rule token_of_auth) (simp_all add: request_of_def noon_def)
  have f: "Photo_findById ref_env (params ?rq ''id'') (photos gallery) = Inr (Some sunset)"
    by (simp add: Photo_findById_cast cast_samples gallery_def sunset_def)
  have app: "app ref_env noon ?req gallery
               = post_comment_first (payload_of alice_id) ref_env noon ?rq gallery"
    using r a by (simp only: route_post_comment protected_authenticated)
  have "fst (post_comment_first (payload_of alice_id) ref_env noon ?rq gallery)
     = (200, Comments
          [\<lparr>j_id = hello_id, j_text = ''hello'', j_user = AuthorDoc bob_id ''b'', j_createdAt = 5\<rparr>,
           \<lparr>j_id = new_id, j_text = ''nice'', j_user = AuthorDoc alice_id ''a'', j_createdAt = 10\<rparr>])"
    unfolding post_comment_first_found [OF f]
    by (simp add: populate_comment_def gallery_def sunset_def hello_def alice_def bob_def
        noon_def request_of_def payload_of_def field_def)
  with app have 1: "fst (app ref_env noon ?req gallery)
     = (200, Comments
          [\<lparr>j_id = hello_id, j_text = ''hello'', j_user = AuthorDoc bob_id ''b'', j_createdAt = 5\<rparr>,
           \<lparr>j_id = new_id, j_text = ''nice'', j_user = AuthorDoc alice_id ''a'', j_createdAt = 10\<rparr>])"
    by (simp only:)
  have sec: "protected post_comment_second ref_env noon (with_param ?req ''id'' sunset_id) gallery
               = post_comment_second (payload_of alice_id) ref_env noon ?rq gallery"
    unfolding with_param_def using a by (rule protected_authenticated)
  have "fst (post_comment_second (payload_of alice_id) ref_env noon ?rq gallery)
     = (200, Comments
          [\<lparr>j_id = hello_id, j_text = ''hello'', j_user = AuthorId bob_id, j_createdAt = 5\<rparr>,
           \<lparr>j_id = new_id, j_text = ''nice'', j_user = AuthorId alice_id, j_createdAt = 10\<rparr>])"
    unfolding post_comment_second_found [OF f]
    by (simp add: raw_comment_def gallery_def sunset_def hello_def
        noon_def request_of_def payload_of_def field_def)
  with sec have 2: "fst (protected post_comment_second ref_env noon (with_param ?req ''id'' sunset_id) gallery)
     = (200, Comments
          [\<lparr>j_id = hello_id, j_text = ''hello'', j_user = AuthorId bob_id, j_createdAt = 5\<rparr>,
           \<lparr>j_id = new_id, j_text = ''nice'', j_user = AuthorId alice_id, j_createdAt = 10\<rparr>])"
    by (simp only:)
  show ?thesis
    unfolding 1 2 by simp
qed


subsection \<open>The header is verified as it is\<close>

text \<open>
  C10. \<open>authMiddleware\<close> hands the whole \<open>authorization\<close> header to the verifier.
  Without a header the answer is 401 "No token". A header of the form "Bearer " followed
  by anything, a token issued by the login included, is answered with 403
  "Invalid token", since a string with a space never verifies. A header that is exactly a
  token signed with the server secret for "2h" passes, until it expires, with the signed
  id. The library is assumed to meet \<open>jwt_contract\<close>.
\<close>

theorem raw_header_is_verified:
  assumes "jwt_contract e"
  shows
    "(authorization req = None \<longrightarrow>
        authMiddleware e w req next st = ((401, Message False ''No token''), st))
     \<and> (authorization req = Some h \<and> h \<noteq> [] \<longrightarrow>
        authMiddleware e w req next st =
          (case jwt_verify e h (JWT_SECRET e) (clock w) of
             None \<Rightarrow> ((403, Message False ''Invalid token''), st)
           | Some user \<Rightarrow> next user st))
     \<and> (authorization req = Some (''Bearer '' @ token) \<longrightarrow>
        authMiddleware e w req next st = ((403, Message False ''Invalid token''), st))
     \<and> (authorization req = Some (jwt_sign e uid (JWT_SECRET e) ''2h'' n) \<and> clock w < n + 7200 \<longrightarrow>
        authMiddleware e w req next st = next \<lparr>d_id = uid, iat = n, exp = n + 7200\<rparr> st)"
proof (intro conjI impI)
  assume "authorization req = None"
  then show "authMiddleware e w req next st = ((401, Message False ''No token''), st)"
    by (simp add: authMiddleware_def)
next
  assume "authorization req = Some h \<and> h \<noteq> []"
  then show "authMiddleware e w req next st =
          (case jwt_verify e h (JWT_SECRET e) (clock w) of
             None \<Rightarrow> ((403, Message False ''Invalid token''), st)
           | Some user \<Rightarrow> next user st)"
    by (simp add: authMiddleware_def)
next
  assume h: "authorization req = Some (''Bearer '' @ token)"
  have "CHR '' '' \<in> set (''Bearer '' @ token)"
    by simp
  with assms have "jwt_verify e (''Bearer '' @ token) (JWT_SECRET e) (clock w) = None"
    unfolding jwt_contract_def by blast
  with h show "authMiddleware e w req next st = ((403, Message False ''Invalid token''), st)"
    by (simp add: authMiddleware_def)
next
  assume h: "authorization req = Some (jwt_sign e uid (JWT_SECRET e) ''2h'' n) \<and> clock w < n + 7200"
  from assms ts
  have "jwt_sign e uid (JWT_SECRET e) ''2h'' n \<noteq> []"
    and "jwt_verify e (jwt_sign e uid (JWT_SECRET e) ''2h'' n) (JWT_SECRET e) (clock w)
           = (if clock w < n + 7200 then Some \<lparr>d_id = uid, iat = n, exp = n + 7200\<rparr> else None)"
    by (simp_all add: jwt_contract_def)
  with h show "authMiddleware e w req next st = next \<lparr>d_id = uid, iat = n, exp = n + 7200\<rparr> st"
    by (simp add: authMiddleware_def)
qed

theorem raw_header_is_verified_witness:
  "jwt_contract ref_env
   \<and> protected get_photos ref_env noon (request_of GET [''photos''] None []) gallery
     = ((401, Message False ''No token''), gallery)
   \<and> protected get_photos ref_env noon
       (request_of GET [''photos''] (Some (''Bearer '' @ ref_sign alice_id ''k'' ''2h'' 0)) []) gallery
     = ((403, Message False ''Invalid token''), gallery)
   \<and> protected get_photos ref_env noon
       (request_of GET [''photos''] (Some (ref_sign alice_id ''k'' ''2h'' 0)) []) gallery
     = get_photos \<lparr>d_id = alice_id, iat = 0, exp = 7200\<rparr> ref_env noon
         (request_of GET [''photos''] (Some (ref_sign alice_id ''k'' ''2h'' 0)) []) gallery"
proof -
  note t = raw_header_is_verified [OF ref_contract, where w = noon and st = gallery]
  have 1: "protected get_photos ref_env noon (request_of GET [''photos''] None []) gallery
             = ((401, Message False ''No token''), gallery)"
    unfolding protected_def
    by (rule t [THEN conjunct1, rule_format]) (simp add: request_of_def)
  have 2: "protected get_photos ref_env noon
             (request_of GET [''photos''] (Some (''Bearer '' @ ref_sign alice_id ''k'' ''2h'' 0)) [])
             gallery
           = ((403, Message False ''Invalid token''), gallery)"
    unfolding protected_def
    by (rule t [THEN conjunct2, THEN conjunct2, THEN conjunct1, rule_format,
          where token = "ref_sign alice_id ''k'' ''2h'' 0"])
       (simp add: request_of_def)
  have 3: "protected get_photos ref_env noon
             (request_of GET [''photos''] (Some (ref_sign alice_id ''k'' ''2h'' 0)) []) gallery
           = get_photos \<lparr>d_id = alice_id, iat = 0, exp = 7200\<rparr> ref_env noon
               (request_of GET [''photos''] (Some (ref_sign alice_id ''k'' ''2h'' 0)) []) gallery"
    unfolding protected_def
    using t [where uid = "alice_id" and n = 0, THEN conjunct2, THEN conjunct2, THEN conjunct2]
    by (simp add: request_of_def ref_env_def noon_def)
  from ref_contract 1 2 3 show ?thesis by simp
qed

end
